theory Spec2Isabelle
  imports Complex_Main "HOL-Library.Sublist" "HOL-Library.Multiset"
begin

section \<open>Python values used by the sampler\<close>

text \<open>
  Strings are lists of 8-bit characters, so the model covers ASCII text: the catalog and
  segment names the script reads (\<^verbatim>\<open>STT_GR_0001_0003_22300_to_27800\<close>) are of
  that kind. Python integers are unbounded: \<open>int\<close>.
\<close>

datatype error = ValueError | KeyError

definition is_digit :: "char \<Rightarrow> bool" where
  "is_digit c = (c \<in> set ''0123456789'')"

definition digit_val :: "char \<Rightarrow> int" where
  "digit_val c = of_char c - 48"

text \<open>
  The characters that \<^verbatim>\<open>int\<close> skips around a literal: tab to carriage return (9-13)
  and the space, and of the characters above 127 the two that Python counts as white
  space, 133 and 160. (The separators 28-31 are white space for \<^verbatim>\<open>str.strip\<close> but not
  for \<^verbatim>\<open>int\<close>, which raises on them.)
\<close>

definition is_space :: "char \<Rightarrow> bool" where
  "is_space c = ((of_char c :: nat) \<in> {9..13} \<union> {32} \<union> {133, 160})"

definition lower_char :: "char \<Rightarrow> char" where
  "lower_char c =
     (case map_of (zip ''ABCDEFGHIJKLMNOPQRSTUVWXYZ'' ''abcdefghijklmnopqrstuvwxyz'') c of
        Some l \<Rightarrow> l
      | None \<Rightarrow> c)"

text \<open>\<^verbatim>\<open>s.lower()\<close>\<close>

definition lower :: "string \<Rightarrow> string" where
  "lower s = map lower_char s"

text \<open>A string without the white space that \<^verbatim>\<open>int\<close> skips at its two ends.\<close>

definition strip :: "string \<Rightarrow> string" where
  "strip s = rev (dropWhile is_space (rev (dropWhile is_space s)))"

text \<open>\<^verbatim>\<open>s.split(sep)\<close> for a one-character separator: never an empty list.\<close>

fun split_on :: "char \<Rightarrow> string \<Rightarrow> string list" where
  "split_on sep [] = [[]]"
| "split_on sep (c # cs) =
     (if c = sep then [] # split_on sep cs
      else (case split_on sep cs of
              [] \<Rightarrow> [[c]]
            | p # ps \<Rightarrow> (c # p) # ps))"

text \<open>
  \<^verbatim>\<open>int(s)\<close> on a string, base 10: white space around the literal is skipped, one
  sign is allowed, and the digits may be grouped by single underscores
  (\<^verbatim>\<open>int("1_000") == 1000\<close>). A literal of more digits than the interpreter's limit
  (\<^verbatim>\<open>sys.get_int_max_str_digits()\<close>, 4300 by default) is refused. Anything that is
  not accepted raises \<^verbatim>\<open>ValueError\<close>.
\<close>

definition int_max_str_digits :: nat where
  "int_max_str_digits = 4300"

fun int_body_ok :: "string \<Rightarrow> bool" where
  "int_body_ok [] = False"
| "int_body_ok [c] = is_digit c"
| "int_body_ok (c # d # cs) =
     (is_digit c \<and> (if d = CHR ''_'' then int_body_ok cs else int_body_ok (d # cs)))"

definition int_digits :: "string \<Rightarrow> string" where
  "int_digits body = filter (\<lambda>c. c \<noteq> CHR ''_'') body"

definition int_value :: "string \<Rightarrow> int" where
  "int_value body = foldl (\<lambda>acc c. acc * 10 + digit_val c) 0 (int_digits body)"

definition py_int :: "string \<Rightarrow> error + int" where
  "py_int s =
     (let t = strip s;
          (negative, body) =
            (case t of
               [] \<Rightarrow> (False, t)
             | c # r \<Rightarrow> if c = CHR ''-'' then (True, r)
                        else if c = CHR ''+'' then (False, r)
                        else (False, t))
      in if int_body_ok body \<and> length (int_digits body) \<le> int_max_str_digits
         then Inr (if negative then - int_value body else int_value body)
         else Inl ValueError)"

text \<open>\<^verbatim>\<open>p in s\<close> on strings: some suffix of \<open>s\<close> starts with \<open>p\<close>.\<close>

fun py_in :: "string \<Rightarrow> string \<Rightarrow> bool" where
  "py_in p [] = (p = [])"
| "py_in p (c # cs) = (prefix p (c # cs) \<or> py_in p cs)"

section \<open>Parent identifier of a segment\<close>

text \<open>
  \<^verbatim>\<open>re.match(r'(STT_GR_\d+)_', segment_id)\<close>: the match is anchored at the start,
  \<^verbatim>\<open>\d+\<close> is greedy, and the digit run must be followed by an underscore. The result
  is group 1 of the match, or \<open>None\<close> when there is no match.
\<close>

definition re_match_stt_gr :: "string \<Rightarrow> string option" where
  "re_match_stt_gr s =
     (if prefix ''STT_GR_'' s then
        (let rest = drop (length ''STT_GR_'') s;
             ds = takeWhile is_digit rest;
             after = dropWhile is_digit rest
         in if ds \<noteq> [] \<and> (case after of [] \<Rightarrow> False | c # _ \<Rightarrow> c = CHR ''_'')
            then Some (''STT_GR_'' @ ds) else None)
      else None)"

definition extract_original_id :: "string \<Rightarrow> string" where
  "extract_original_id segment_id =
     (case re_match_stt_gr segment_id of
        Some group1 \<Rightarrow> group1
      | None \<Rightarrow> segment_id)"

section \<open>Metadata derivation\<close>

text \<open>
  A cell of the catalog's duration column is a string, or absent (\<open>None\<close>: the
  \<^verbatim>\<open>NaN\<close> that \<^verbatim>\<open>pd.isna\<close> tests for). The three fields are unpacked from
  \<^verbatim>\<open>map(int, time_str.split(':'))\<close>: a field that is no integer literal, and a number
  of fields other than three, both raise \<^verbatim>\<open>ValueError\<close>.
\<close>

definition parse_duration :: "string option \<Rightarrow> error + int" where
  "parse_duration time_str =
     (case time_str of
        None \<Rightarrow> Inr 0
      | Some str \<Rightarrow>
          (case map py_int (split_on CHR '':'' str) of
             [Inr h, Inr m, Inr s] \<Rightarrow> Inr (h * 3600 + m * 60 + s)
           | _ \<Rightarrow> Inl ValueError))"

definition duration_category :: "int \<Rightarrow> string" where
  "duration_category seconds =
     (if seconds < 300 then ''short''
      else if seconds < 900 then ''medium''
      else ''long'')"

definition extract_content_type :: "string \<Rightarrow> string" where
  "extract_content_type filename =
     (let lower_name = lower filename
      in if py_in ''qa'' lower_name then ''Q&A''
         else if py_in ''practice'' lower_name then ''Practice''
         else if py_in ''dedication'' lower_name \<or> py_in ''prayer'' lower_name then ''Prayer''
         else ''Teaching'')"

section \<open>Floating-point durations\<close>

text \<open>
  A Python float is a finite value, an infinity or \<^verbatim>\<open>NaN\<close>. The finite doubles are
  rationals and their comparisons are exact, so a finite value is modelled as a real
  number. Every comparison with \<^verbatim>\<open>NaN\<close> is false.
\<close>

datatype pyfloat = Finite real | PosInf | NegInf | NaN

fun float_le :: "pyfloat \<Rightarrow> pyfloat \<Rightarrow> bool" where
  "float_le NaN _ = False"
| "float_le _ NaN = False"
| "float_le NegInf _ = True"
| "float_le _ PosInf = True"
| "float_le (Finite a) (Finite b) = (a \<le> b)"
| "float_le _ _ = False"

definition float_ge :: "pyfloat \<Rightarrow> pyfloat \<Rightarrow> bool" where
  "float_ge a b = float_le b a"

section \<open>Configuration\<close>

definition SEGMENTS_PER_STRATUM :: nat where
  "SEGMENTS_PER_STRATUM = 130"

definition MIN_SEGMENT_DURATION :: pyfloat where
  "MIN_SEGMENT_DURATION = Finite 0.5"

definition MAX_SEGMENT_DURATION :: pyfloat where
  "MAX_SEGMENT_DURATION = Finite 30.0"

definition RANDOM_SEED :: nat where
  "RANDOM_SEED = 42"

section \<open>The input tables\<close>

text \<open>
  A row of \<^verbatim>\<open>gr_catalog.csv\<close>. The identifier, the display name and the age label
  are text; the duration cell may be empty.
\<close>

record catalog_row =
  ID :: string
  Filename :: string
  Original_Full_Audio_Duration :: "string option"
  AGE :: string

text \<open>
  A cell of the \<^verbatim>\<open>audio_duration\<close> column as \<^verbatim>\<open>read_csv\<close> delivers it: a float
  (\<^verbatim>\<open>NaN\<close> for an empty cell), or, in a column that holds something that is not a
  number, the text of the cell. \<open>Text\<close> stands for a text that \<^verbatim>\<open>float\<close> rejects.
\<close>

datatype duration_cell = Number pyfloat | Text string

text \<open>
  A row of \<^verbatim>\<open>GR.csv\<close>, with the type of its duration column as a parameter: cells
  before \<^verbatim>\<open>astype(float)\<close>, floats after it. A transcript cell is a text or empty
  (\<open>None\<close>). The column \<^verbatim>\<open>inference_transcript\<close> is optional as a whole: the table
  records whether it is there, and the field of a row is read only when it is.
\<close>

record 'd segment_row =
  file_name :: string
  url :: string
  audio_duration :: 'd
  inference_transcript :: "string option"

record segments_table =
  has_transcript :: bool
  seg_rows :: "duration_cell segment_row list"

text \<open>
  A data frame keeps the index of each row through every filter: a frame is a list of
  rows with their index, in row order. \<^verbatim>\<open>read_csv\<close> numbers the rows from 0.
\<close>

type_synonym 'r frame = "(nat \<times> 'r) list"

definition read_frame :: "'r list \<Rightarrow> 'r frame" where
  "read_frame rows = zip [0..<length rows] rows"

section \<open>Duration filter\<close>

text \<open>\<^verbatim>\<open>segments_df['audio_duration'].astype(float)\<close>: one text cell fails the column.\<close>

fun to_float :: "duration_cell \<Rightarrow> error + pyfloat" where
  "to_float (Number f) = Inr f"
| "to_float (Text s) = Inl ValueError"

fun astype_float :: "duration_cell segment_row frame \<Rightarrow> error + pyfloat segment_row frame" where
  "astype_float [] = Inr []"
| "astype_float ((i, r) # rs) =
     (case to_float (audio_duration r) of
        Inl e \<Rightarrow> Inl e
      | Inr f \<Rightarrow>
          (case astype_float rs of
             Inl e \<Rightarrow> Inl e
           | Inr rs' \<Rightarrow>
               Inr ((i, \<lparr>file_name = file_name r, url = url r, audio_duration = f,
                         inference_transcript = inference_transcript r\<rparr>) # rs')))"

definition in_duration_range :: "pyfloat \<Rightarrow> pyfloat \<Rightarrow> pyfloat \<Rightarrow> bool" where
  "in_duration_range lo hi d = (float_ge d lo \<and> float_le d hi)"

definition filter_duration ::
  "pyfloat \<Rightarrow> pyfloat \<Rightarrow> pyfloat segment_row frame \<Rightarrow> pyfloat segment_row frame" where
  "filter_duration lo hi segments_df =
     filter (\<lambda>(i, r). in_duration_range lo hi (audio_duration r)) segments_df"

text \<open>Lines 77 to 81 together, with the bounds as parameters.\<close>

definition valid_segments_of ::
  "pyfloat \<Rightarrow> pyfloat \<Rightarrow> duration_cell segment_row list \<Rightarrow> error + pyfloat segment_row frame" where
  "valid_segments_of lo hi rows =
     (case astype_float (read_frame rows) of
        Inl e \<Rightarrow> Inl e
      | Inr segments_df \<Rightarrow> Inr (filter_duration lo hi segments_df))"

section \<open>Strata of the catalog\<close>

text \<open>
  The catalog with its derived columns. The script's columns \<^verbatim>\<open>duration_category\<close>,
  \<^verbatim>\<open>content_type\<close> and \<^verbatim>\<open>strata\<close> are the fields \<open>cat_duration_category\<close>,
  \<open>cat_content_type\<close> and \<open>cat_strata\<close> here: the plain names are those of the functions
  and of the segment columns.
\<close>

record catalog_entry = catalog_row +
  split_duration_seconds :: int
  cat_duration_category :: string
  cat_content_type :: string
  cat_strata :: string

text \<open>\<^verbatim>\<open>f"{row['AGE']}__{row['duration_category']}__{row['content_type']}"\<close>\<close>

definition strata_key :: "string \<Rightarrow> string \<Rightarrow> string \<Rightarrow> string" where
  "strata_key age dc ct = age @ ''__'' @ dc @ ''__'' @ ct"

definition derive_entry :: "catalog_row \<Rightarrow> int \<Rightarrow> catalog_entry" where
  "derive_entry row seconds =
     \<lparr>ID = ID row, Filename = Filename row,
      Original_Full_Audio_Duration = Original_Full_Audio_Duration row, AGE = AGE row,
      split_duration_seconds = seconds,
      cat_duration_category = duration_category seconds,
      cat_content_type = extract_content_type (Filename row),
      cat_strata = strata_key (AGE row) (duration_category seconds)
                     (extract_content_type (Filename row))\<rparr>"

text \<open>Lines 88 to 96: the first duration that does not parse ends the run.\<close>

fun derive_catalog :: "catalog_row list \<Rightarrow> error + catalog_entry list" where
  "derive_catalog [] = Inr []"
| "derive_catalog (row # rows) =
     (case parse_duration (Original_Full_Audio_Duration row) of
        Inl e \<Rightarrow> Inl e
      | Inr seconds \<Rightarrow>
          (case derive_catalog rows of
             Inl e \<Rightarrow> Inl e
           | Inr entries \<Rightarrow> Inr (derive_entry row seconds # entries)))"

text \<open>
  \<^verbatim>\<open>dict(zip(catalog_df['ID'], catalog_df['strata']))\<close>: of two rows with one
  identifier the later one stays.
\<close>

definition id_to_strata_of :: "catalog_entry list \<Rightarrow> (string \<rightharpoonup> string)" where
  "id_to_strata_of catalog_df = map_of (rev (map (\<lambda>e. (ID e, cat_strata e)) catalog_df))"

record metadata =
  md_AGE :: string
  md_duration_category :: string
  md_content_type :: string

text \<open>
  \<^verbatim>\<open>catalog_df.set_index('ID')[[...]].to_dict('index')\<close>: pandas raises
  \<^verbatim>\<open>ValueError\<close> when the index is not unique.
\<close>

definition id_to_metadata_of :: "catalog_entry list \<Rightarrow> error + (string \<rightharpoonup> metadata)" where
  "id_to_metadata_of catalog_df =
     (if distinct (map ID catalog_df)
      then Inr (map_of (map (\<lambda>e. (ID e, \<lparr>md_AGE = AGE e,
                                             md_duration_category = cat_duration_category e,
                                             md_content_type = cat_content_type e\<rparr>)) catalog_df))
      else Inl ValueError)"

section \<open>Joining segments to strata\<close>

text \<open>
  The working table after lines 85 and 103: each segment with its parent identifier and
  the stratum of that parent, \<open>None\<close> (\<^verbatim>\<open>NaN\<close>) when the identifier is no key of the
  dictionary.
\<close>

record joined_segment = "pyfloat segment_row" +
  original_id :: string
  strata :: "string option"

definition join_strata ::
  "(string \<rightharpoonup> string) \<Rightarrow> pyfloat segment_row frame \<Rightarrow> joined_segment frame" where
  "join_strata id_to_strata valid_segments =
     map (\<lambda>(i, r). (i, \<lparr>file_name = file_name r, url = url r,
                          audio_duration = audio_duration r,
                          inference_transcript = inference_transcript r,
                          original_id = extract_original_id (file_name r),
                          strata = id_to_strata (extract_original_id (file_name r))\<rparr>))
       valid_segments"

text \<open>\<^verbatim>\<open>valid_segments.dropna(subset=['strata'])\<close>\<close>

definition dropna_strata :: "joined_segment frame \<Rightarrow> joined_segment frame" where
  "dropna_strata valid_segments = filter (\<lambda>(i, r). strata r \<noteq> None) valid_segments"

section \<open>Stratified sampling\<close>

text \<open>
  \<^verbatim>\<open>Counter(values)\<close>: each value counted, the keys in the order of their first
  occurrence.
\<close>

fun counter_add :: "'k \<Rightarrow> ('k \<times> nat) list \<Rightarrow> ('k \<times> nat) list" where
  "counter_add k [] = [(k, 1)]"
| "counter_add k ((k', n) # kvs) =
     (if k = k' then (k', Suc n) # kvs else (k', n) # counter_add k kvs)"

definition Counter :: "'k list \<Rightarrow> ('k \<times> nat) list" where
  "Counter values = foldl (\<lambda>counts k. counter_add k counts) [] values"

text \<open>\<^verbatim>\<open>column == value\<close> on cells: a \<^verbatim>\<open>NaN\<close> equals nothing.\<close>

fun cell_eq :: "string option \<Rightarrow> string option \<Rightarrow> bool" where
  "cell_eq (Some a) (Some b) = (a = b)"
| "cell_eq _ _ = False"

text \<open>
  The random generator is numpy's global one, which is not part of the script: it
  enters the model as two parameters, the state that \<^verbatim>\<open>np.random.seed\<close> sets for a
  seed, and the draw \<^verbatim>\<open>rk_interval(max, state)\<close> of a number from 0 to \<open>max\<close>
  inclusive, which returns the number and the next state. \<^verbatim>\<open>DataFrame.sample(n)\<close>
  without replacement takes the rows at the first \<open>n\<close> positions of
  \<^verbatim>\<open>permutation(len)\<close>, which shuffles \<^verbatim>\<open>arange(len)\<close> by swapping each position
  \<open>i\<close>, from the last down to 1, with a drawn position \<open>j \<le> i\<close>.
\<close>

type_synonym 'g interval = "nat \<Rightarrow> 'g \<Rightarrow> nat \<times> 'g"

definition interval_ok :: "'g interval \<Rightarrow> bool" where
  "interval_ok rk_interval = (\<forall>m g. fst (rk_interval m g) \<le> m)"

fun shuffle :: "'g interval \<Rightarrow> nat \<Rightarrow> nat list \<Rightarrow> 'g \<Rightarrow> nat list \<times> 'g" where
  "shuffle rk_interval 0 xs g = (xs, g)"
| "shuffle rk_interval (Suc i) xs g =
     (let (j, g') = rk_interval (Suc i) g
      in shuffle rk_interval i (xs[Suc i := xs ! j, j := xs ! Suc i]) g')"

definition permutation :: "'g interval \<Rightarrow> nat \<Rightarrow> 'g \<Rightarrow> nat list \<times> 'g" where
  "permutation rk_interval n g = shuffle rk_interval (n - 1) [0..<n] g"

text \<open>
  \<^verbatim>\<open>frame.sample(n=n)\<close>. The script calls it only with \<open>n\<close> below the number of rows
  (line 127), where pandas does not raise.
\<close>

definition sample :: "'g interval \<Rightarrow> nat \<Rightarrow> 'r frame \<Rightarrow> 'g \<Rightarrow> 'r frame \<times> 'g" where
  "sample rk_interval n frame g =
     (let (idx, g') = permutation rk_interval (length frame) g
      in (map (\<lambda>k. frame ! k) (take n idx), g'))"

text \<open>Line 121: the rows of one stratum.\<close>

definition stratum_rows :: "joined_segment frame \<Rightarrow> string option \<Rightarrow> joined_segment frame" where
  "stratum_rows valid_segments stratum =
     filter (\<lambda>(i, r). cell_eq (strata r) stratum) valid_segments"

text \<open>Lines 124 to 132: all rows of a stratum of at most \<open>T\<close> rows, else a sample of \<open>T\<close>.\<close>

definition select_stratum :: "'g interval \<Rightarrow> nat \<Rightarrow> 'r frame \<Rightarrow> 'g \<Rightarrow> 'r frame \<times> 'g" where
  "select_stratum rk_interval T stratum_segments g =
     (let target_count = min T (length stratum_segments)
      in if length stratum_segments \<le> target_count then (stratum_segments, g)
         else sample rk_interval target_count stratum_segments g)"

text \<open>The loop of lines 120 to 134, with the generator state passed along.\<close>

fun sample_strata ::
  "'g interval \<Rightarrow> nat \<Rightarrow> joined_segment frame \<Rightarrow> (string option \<times> nat) list \<Rightarrow> 'g
     \<Rightarrow> joined_segment frame list \<times> 'g" where
  "sample_strata rk_interval T valid_segments [] g = ([], g)"
| "sample_strata rk_interval T valid_segments ((stratum, cnt) # strata_counts) g =
     (let stratum_segments = stratum_rows valid_segments stratum;
          (selected, g') = select_stratum rk_interval T stratum_segments g;
          (benchmark_segments, g'') = sample_strata rk_interval T valid_segments strata_counts g'
      in (selected # benchmark_segments, g''))"

text \<open>
  Lines 110 to 134. \<open>g0\<close> is the state of the global generator when the script reaches
  line 117, where \<^verbatim>\<open>np.random.seed\<close> replaces it.
\<close>

definition stratified_sample ::
  "(nat \<Rightarrow> 'g) \<Rightarrow> 'g interval \<Rightarrow> nat \<Rightarrow> nat \<Rightarrow> joined_segment frame \<Rightarrow> 'g
     \<Rightarrow> joined_segment frame list \<times> 'g" where
  "stratified_sample np_random_seed rk_interval seed T valid_segments g0 =
     (let strata_counts = Counter (map (\<lambda>(i, r). strata r) valid_segments);
          g = np_random_seed seed
      in sample_strata rk_interval T valid_segments strata_counts g)"

text \<open>\<^verbatim>\<open>pd.concat(frames)\<close>: an empty list of frames raises \<^verbatim>\<open>ValueError\<close>.\<close>

definition pd_concat :: "'r frame list \<Rightarrow> error + 'r frame" where
  "pd_concat frames = (if frames = [] then Inl ValueError else Inr (concat frames))"

section \<open>Output tables\<close>

text \<open>
  The selection with the labels of lines 140 to 142; the columns
  \<^verbatim>\<open>duration_category\<close> and \<^verbatim>\<open>content_type\<close> are the fields \<open>bm_duration_category\<close>
  and \<open>bm_content_type\<close>.
\<close>

record benchmark_row = joined_segment +
  age_group :: string
  bm_duration_category :: string
  bm_content_type :: string

definition add_metadata ::
  "(string \<rightharpoonup> metadata) \<Rightarrow> joined_segment frame \<Rightarrow> benchmark_row frame" where
  "add_metadata id_to_metadata benchmark_df =
     map (\<lambda>(i, r). (i, \<lparr>file_name = file_name r, url = url r,
                          audio_duration = audio_duration r,
                          inference_transcript = inference_transcript r,
                          original_id = original_id r, strata = strata r,
                          age_group = (case id_to_metadata (original_id r) of
                                         None \<Rightarrow> ''Unknown'' | Some md \<Rightarrow> md_AGE md),
                          bm_duration_category = (case id_to_metadata (original_id r) of
                                         None \<Rightarrow> ''Unknown'' | Some md \<Rightarrow> md_duration_category md),
                          bm_content_type = (case id_to_metadata (original_id r) of
                                         None \<Rightarrow> ''Unknown'' | Some md \<Rightarrow> md_content_type md)\<rparr>))
       benchmark_df"

text \<open>
  A row of a written table: its columns in order, each with its value. An empty text
  cell is the float \<^verbatim>\<open>NaN\<close>.
\<close>

datatype cell_value = StrV string | FloatV pyfloat | IntV int

type_synonym row = "(string \<times> cell_value) list"

definition text_cell :: "string option \<Rightarrow> cell_value" where
  "text_cell c = (case c of None \<Rightarrow> FloatV NaN | Some s \<Rightarrow> StrV s)"

text \<open>
  A row of \<^verbatim>\<open>benchmark_df\<close>: the columns of \<^verbatim>\<open>GR.csv\<close> (the transcript only when
  the table has it), then the columns the script added.
\<close>

definition benchmark_df_row :: "bool \<Rightarrow> benchmark_row \<Rightarrow> row" where
  "benchmark_df_row has_tr r =
     [(''file_name'', StrV (file_name r)), (''url'', StrV (url r))]
     @ (if has_tr then [(''inference_transcript'', text_cell (inference_transcript r))] else [])
     @ [(''audio_duration'', FloatV (audio_duration r)),
        (''original_id'', StrV (original_id r)),
        (''strata'', text_cell (strata r)),
        (''age_group'', StrV (age_group r)),
        (''duration_category'', StrV (bm_duration_category r)),
        (''content_type'', StrV (bm_content_type r))]"

text \<open>\<^verbatim>\<open>df[column] = value\<close>: in place when the column exists, else a new last column.\<close>

fun set_column :: "string \<Rightarrow> cell_value \<Rightarrow> row \<Rightarrow> row" where
  "set_column c v [] = [(c, v)]"
| "set_column c v ((k, w) # r) = (if k = c then (c, v) # r else (k, w) # set_column c v r)"

definition has_column :: "string \<Rightarrow> row \<Rightarrow> bool" where
  "has_column c r = (c \<in> set (map fst r))"

text \<open>\<^verbatim>\<open>df[columns]\<close>: a column that is not there raises \<^verbatim>\<open>KeyError\<close>.\<close>

fun select_columns :: "string list \<Rightarrow> row \<Rightarrow> error + row" where
  "select_columns [] r = Inr []"
| "select_columns (c # cs) r =
     (case map_of r c of
        None \<Rightarrow> Inl KeyError
      | Some v \<Rightarrow>
          (case select_columns cs r of
             Inl e \<Rightarrow> Inl e
           | Inr vs \<Rightarrow> Inr ((c, v) # vs)))"

definition columns_order :: "string list" where
  "columns_order = [''file_name'', ''url'', ''inference_transcript'', ''audio_duration'',
                    ''group_id'', ''state'', ''id'']"

text \<open>Lines 150 to 162 on one row; \<open>n\<close> is the row's element of the range of line 158.\<close>

definition formatted_df_row :: "bool \<Rightarrow> benchmark_row \<Rightarrow> int \<Rightarrow> row" where
  "formatted_df_row has_tr r n =
     (let formatted = benchmark_df_row has_tr r;
          formatted = set_column ''group_id'' (IntV 33) formatted;
          formatted = set_column ''state'' (StrV ''transcribing'') formatted;
          formatted = set_column ''id'' (IntV n) formatted
      in if \<not> has_column ''inference_transcript'' formatted
         then set_column ''inference_transcript'' (StrV '''') formatted
         else formatted)"

fun collect :: "(error + 'a) list \<Rightarrow> error + 'a list" where
  "collect [] = Inr []"
| "collect (x # xs) =
     (case x of
        Inl e \<Rightarrow> Inl e
      | Inr v \<Rightarrow> (case collect xs of Inl e \<Rightarrow> Inl e | Inr vs \<Rightarrow> Inr (v # vs)))"

definition formatted_output :: "bool \<Rightarrow> benchmark_row frame \<Rightarrow> error + row list" where
  "formatted_output has_tr benchmark_df =
     collect (map (\<lambda>((i, r), n). select_columns columns_order (formatted_df_row has_tr r (int n)))
                (zip benchmark_df [2159570 ..< 2159570 + length benchmark_df]))"

datatype json = JString string | JNumber pyfloat | JObject "(string \<times> json) list"

definition json_cell :: "string option \<Rightarrow> json" where
  "json_cell c = (case c of None \<Rightarrow> JNumber NaN | Some s \<Rightarrow> JString s)"

text \<open>Lines 186 to 201 on one row.\<close>

definition benchmark_json_entry :: "bool \<Rightarrow> benchmark_row \<Rightarrow> json" where
  "benchmark_json_entry has_tr r =
     JObject
       [(''id'', JString (file_name r)),
        (''url'', JString (url r)),
        (''duration'', JNumber (audio_duration r)),
        (''metadata'', JObject
           [(''original_file_id'', JString (original_id r)),
            (''age_group'', JString (age_group r)),
            (''content_type'', JString (bm_content_type r)),
            (''duration_category'', JString (bm_duration_category r)),
            (''strata'', json_cell (strata r))]),
        (''segment_info'', JObject
           [(''transcript'', if has_tr then json_cell (inference_transcript r) else JString '''')])]"

text \<open>Reading a member of a JSON object, for stating what an entry holds.\<close>

fun json_field :: "string \<Rightarrow> json \<Rightarrow> json option" where
  "json_field k (JObject members) = map_of members k"
| "json_field k _ = None"

definition json_transcript :: "json \<Rightarrow> json option" where
  "json_transcript entry =
     (case json_field ''segment_info'' entry of
        None \<Rightarrow> None
      | Some info \<Rightarrow> json_field ''transcript'' info)"

section \<open>The script\<close>

text \<open>
  What \<^verbatim>\<open>main\<close> computes from the two tables: the selection, the table for upload,
  the mapping of every valid segment to its stratum, the catalog with its strata and the
  list written as JSON. The printed messages and the text report are left out.
\<close>

record outputs =
  benchmark_df :: "benchmark_row frame"
  formatted_rows :: "row list"
  strata_mapping_df :: "(nat \<times> string \<times> string \<times> string option \<times> pyfloat) list"
  full_audio_strata_df :: "catalog_entry list"
  benchmark_json :: "json list"

definition main ::
  "(nat \<Rightarrow> 'g) \<Rightarrow> 'g interval \<Rightarrow> 'g \<Rightarrow> catalog_row list \<Rightarrow> segments_table
     \<Rightarrow> error + outputs \<times> 'g" where
  "main np_random_seed rk_interval g0 catalog segments =
     (case valid_segments_of MIN_SEGMENT_DURATION MAX_SEGMENT_DURATION (seg_rows segments) of
        Inl e \<Rightarrow> Inl e
      | Inr duration_filtered \<Rightarrow>
     (case derive_catalog catalog of
        Inl e \<Rightarrow> Inl e
      | Inr catalog_df \<Rightarrow>
     (case id_to_metadata_of catalog_df of
        Inl e \<Rightarrow> Inl e
      | Inr id_to_metadata \<Rightarrow>
     (let valid_segments =
            dropna_strata (join_strata (id_to_strata_of catalog_df) duration_filtered);
          (benchmark_segments, g) =
            stratified_sample np_random_seed rk_interval RANDOM_SEED SEGMENTS_PER_STRATUM
              valid_segments g0
      in (case pd_concat benchmark_segments of
            Inl e \<Rightarrow> Inl e
          | Inr selected \<Rightarrow>
         (let benchmark = add_metadata id_to_metadata selected
          in (case formatted_output (has_transcript segments) benchmark of
                Inl e \<Rightarrow> Inl e
              | Inr formatted \<Rightarrow>
                  Inr (\<lparr>benchmark_df = benchmark,
                        formatted_rows = formatted,
                        strata_mapping_df =
                          map (\<lambda>(i, r). (i, file_name r, original_id r, strata r, audio_duration r))
                            valid_segments,
                        full_audio_strata_df = catalog_df,
                        benchmark_json =
                          map (\<lambda>(i, r). benchmark_json_entry (has_transcript segments) r)
                            benchmark\<rparr>, g))))))))"

section \<open>Example tables\<close>

text \<open>
  A catalog of two recordings and a segments table of nine rows, for running the
  definitions on concrete input, and a small linear congruential generator in the place
  of numpy's.
\<close>

definition example_catalog :: "catalog_row list" where
  "example_catalog =
     [\<lparr>ID = ''STT_GR_0001'', Filename = ''Garchen Rinpoche QA session'',
       Original_Full_Audio_Duration = Some ''00:06:00'', AGE = ''Adult''\<rparr>,
      \<lparr>ID = ''STT_GR_0002'', Filename = ''Morning Prayer'',
       Original_Full_Audio_Duration = None, AGE = ''Senior''\<rparr>]"

definition example_row :: "string \<Rightarrow> 'd \<Rightarrow> string option \<Rightarrow> 'd segment_row" where
  "example_row name d transcript =
     \<lparr>file_name = name, url = ''https://audio.example/'' @ name, audio_duration = d,
      inference_transcript = transcript\<rparr>"

definition example_rows :: "duration_cell segment_row list" where
  "example_rows =
     [example_row ''STT_GR_0001_0001_0_to_5500'' (Number (Finite 5.5)) (Some ''om''),
      example_row ''STT_GR_0001_0002_5500_to_6000'' (Number (Finite 0.5)) None,
      example_row ''STT_GR_0001_0003_6000_to_36000'' (Number (Finite 30.0)) (Some ''ah''),
      example_row ''STT_GR_0002_0001_0_to_490'' (Number (Finite 0.49)) None,
      example_row ''STT_GR_0002_0002_490_to_30500'' (Number (Finite 30.01)) None,
      example_row ''STT_GR_0002_0003_30500_to_40000'' (Number (Finite 9.5)) (Some ''hung''),
      example_row ''STT_GR_0009_0001_0_to_7000'' (Number (Finite 7.0)) None,
      example_row ''clip_7.wav'' (Number (Finite 3.0)) None,
      example_row ''STT_GR_0001_0004_36000_to_36000'' (Number NaN) None]"

definition example_segments :: segments_table where
  "example_segments = \<lparr>has_transcript = True, seg_rows = example_rows\<rparr>"

text \<open>
  The working table of lines 103 to 106 for six segments that passed the duration filter:
  the parents of the last two are not in the dictionary.
\<close>

definition example_valid :: "joined_segment frame" where
  "example_valid =
     dropna_strata
       (join_strata
          (map_of [(''STT_GR_0001'', ''Adult__medium__Q&A''),
                   (''STT_GR_0002'', ''Senior__short__Prayer'')])
          [(0, example_row ''STT_GR_0001_0001_0_to_5500'' (Finite 5.5) (Some ''om'')),
           (1, example_row ''STT_GR_0001_0002_5500_to_6000'' (Finite 0.5) None),
           (2, example_row ''STT_GR_0001_0003_6000_to_36000'' (Finite 30.0) (Some ''ah'')),
           (5, example_row ''STT_GR_0002_0003_30500_to_40000'' (Finite 9.5) (Some ''hung'')),
           (6, example_row ''STT_GR_0009_0001_0_to_7000'' (Finite 7.0) None),
           (7, example_row ''clip_7.wav'' (Finite 3.0) None)])"

text \<open>Three rows of a selection, as lines 140 to 142 leave them.\<close>

definition example_benchmark :: "benchmark_row frame" where
  "example_benchmark =
     [(0, \<lparr>file_name = ''STT_GR_0001_0001_0_to_5500'',
           url = ''https://audio.example/STT_GR_0001_0001_0_to_5500'',
           audio_duration = Finite 5.5, inference_transcript = Some ''om'',
           original_id = ''STT_GR_0001'', strata = Some ''Adult__medium__Q&A'',
           age_group = ''Adult'', bm_duration_category = ''medium'',
           bm_content_type = ''Q&A''\<rparr>),
      (1, \<lparr>file_name = ''STT_GR_0001_0002_5500_to_6000'',
           url = ''https://audio.example/STT_GR_0001_0002_5500_to_6000'',
           audio_duration = Finite 0.5, inference_transcript = None,
           original_id = ''STT_GR_0001'', strata = Some ''Adult__medium__Q&A'',
           age_group = ''Adult'', bm_duration_category = ''medium'',
           bm_content_type = ''Q&A''\<rparr>),
      (5, \<lparr>file_name = ''STT_GR_0002_0003_30500_to_40000'',
           url = ''https://audio.example/STT_GR_0002_0003_30500_to_40000'',
           audio_duration = Finite 9.5, inference_transcript = Some ''hung'',
           original_id = ''STT_GR_0002'', strata = Some ''Senior__short__Prayer'',
           age_group = ''Senior'', bm_duration_category = ''short'',
           bm_content_type = ''Prayer''\<rparr>)]"

definition example_seed :: "nat \<Rightarrow> nat" where
  "example_seed seed = seed"

definition example_interval :: "nat interval" where
  "example_interval m g = (g mod (m + 1), (g * 5 + 3) mod 64)"

section \<open>Properties of the parent identifier\<close>

lemma not_digit_underscore: "\<not> is_digit CHR ''_''"
  by (simp add: is_digit_def)

lemma re_match_stt_gr_Some:
  assumes "ds \<noteq> []" and "\<forall>c\<in>set ds. is_digit c"
  shows "re_match_stt_gr (''STT_GR_'' @ ds @ ''_'' @ rest) = Some (''STT_GR_'' @ ds)"
proof -
  have tw: "takeWhile is_digit (ds @ CHR ''_'' # rest) = ds"
    using assms(2) by (simp add: takeWhile_append2 not_digit_underscore)
  have dw: "dropWhile is_digit (ds @ CHR ''_'' # rest) = CHR ''_'' # rest"
    using assms(2) by (simp add: dropWhile_append2 not_digit_underscore)
  show ?thesis
    using assms(1) by (simp add: re_match_stt_gr_def tw dw)
qed

lemma re_match_stt_gr_shape:
  assumes "re_match_stt_gr s = Some g"
  shows "\<exists>ds rest. ds \<noteq> [] \<and> (\<forall>c\<in>set ds. is_digit c) \<and> g = ''STT_GR_'' @ ds
           \<and> s = ''STT_GR_'' @ ds @ ''_'' @ rest"
proof -
  from assms have p: "prefix ''STT_GR_'' s"
    by (simp add: re_match_stt_gr_def split: if_splits)
  then obtain r where s: "s = ''STT_GR_'' @ r"
    by (auto simp: prefix_def)
  let ?ds = "takeWhile is_digit r"
  let ?af = "dropWhile is_digit r"
  from assms s have ne: "?ds \<noteq> []" and g: "g = ''STT_GR_'' @ ?ds"
    and af: "(case ?af of [] \<Rightarrow> False | c # _ \<Rightarrow> c = CHR ''_'')"
    by (auto simp: re_match_stt_gr_def Let_def split: if_splits)
  from af obtain tl where tl: "?af = CHR ''_'' # tl"
    by (cases ?af) auto
  have "r = ?ds @ ?af" by simp
  with tl have r: "r = ?ds @ ''_'' @ tl" by simp
  have dig: "\<forall>c\<in>set ?ds. is_digit c"
    by (auto dest: set_takeWhileD)
  from ne dig g s r show ?thesis by blast
qed

text \<open>
  C10. For every input string, parent-id extraction returns a prefix of the input: when
  the input is \<^verbatim>\<open>STT_GR_\<close>, a non-empty run of digits and an underscore, followed by
  anything, the result is the leading \<^verbatim>\<open>STT_GR_<digits>\<close> token; when the input has
  no such shape the result is the input itself. The function is total, so it returns on
  every string.
\<close>

theorem extract_original_id_prefix:
  "prefix (extract_original_id s) s
   \<and> (\<forall>ds rest. ds \<noteq> [] \<and> (\<forall>c\<in>set ds. is_digit c) \<and> s = ''STT_GR_'' @ ds @ ''_'' @ rest
        \<longrightarrow> extract_original_id s = ''STT_GR_'' @ ds)
   \<and> ((\<nexists>ds rest. ds \<noteq> [] \<and> (\<forall>c\<in>set ds. is_digit c) \<and> s = ''STT_GR_'' @ ds @ ''_'' @ rest)
        \<longrightarrow> extract_original_id s = s)"
proof (intro conjI allI impI)
  show "prefix (extract_original_id s) s"
  proof (cases "re_match_stt_gr s")
    case None
    then show ?thesis by (simp add: extract_original_id_def)
  next
    case (Some g)
    from re_match_stt_gr_shape [OF Some] obtain ds rest
      where "g = ''STT_GR_'' @ ds" and "s = ''STT_GR_'' @ ds @ ''_'' @ rest"
      by blast
    with Some show ?thesis by (simp add: extract_original_id_def)
  qed
next
  fix ds rest
  assume "ds \<noteq> [] \<and> (\<forall>c\<in>set ds. is_digit c) \<and> s = ''STT_GR_'' @ ds @ ''_'' @ rest"
  then show "extract_original_id s = ''STT_GR_'' @ ds"
    using re_match_stt_gr_Some [of ds rest] by (simp add: extract_original_id_def)
next
  assume no: "\<nexists>ds rest. ds \<noteq> [] \<and> (\<forall>c\<in>set ds. is_digit c) \<and> s = ''STT_GR_'' @ ds @ ''_'' @ rest"
  have "re_match_stt_gr s = None"
  proof (cases "re_match_stt_gr s")
    case None
    then show ?thesis .
  next
    case (Some g)
    from re_match_stt_gr_shape [OF Some] no show ?thesis by blast
  qed
  then show "extract_original_id s = s" by (simp add: extract_original_id_def)
qed

theorem extract_original_id_prefix_witness:
  "extract_original_id ''STT_GR_0001_0003_22300_to_27800'' = ''STT_GR_0001''
   \<and> prefix ''STT_GR_0001'' ''STT_GR_0001_0003_22300_to_27800''
   \<and> extract_original_id ''STT_GR_12'' = ''STT_GR_12''
   \<and> extract_original_id ''clip_7.wav'' = ''clip_7.wav''"
proof -
  have a: "extract_original_id ''STT_GR_0001_0003_22300_to_27800'' = ''STT_GR_0001''"
    using extract_original_id_prefix [of "''STT_GR_0001_0003_22300_to_27800''",
        THEN conjunct2, THEN conjunct1, rule_format, of "''0001''" "''0003_22300_to_27800''"]
    by (simp add: is_digit_def)
  have b: "extract_original_id ''STT_GR_12'' = ''STT_GR_12''"
    by (simp add: extract_original_id_def re_match_stt_gr_def is_digit_def)
  have c: "extract_original_id ''clip_7.wav'' = ''clip_7.wav''"
    by (simp add: extract_original_id_def re_match_stt_gr_def)
  from a b c show ?thesis by simp
qed

section \<open>Properties of the content type\<close>

lemma py_in_iff: "py_in p s \<longleftrightarrow> (\<exists>u v. s = u @ p @ v)"
proof (induction s)
  case Nil
  then show ?case by auto
next
  case (Cons c cs)
  have "(\<exists>u v. c # cs = u @ p @ v) \<longleftrightarrow> prefix p (c # cs) \<or> (\<exists>u v. cs = u @ p @ v)"
  proof
    assume "\<exists>u v. c # cs = u @ p @ v"
    then obtain u v where uv: "c # cs = u @ p @ v" by blast
    show "prefix p (c # cs) \<or> (\<exists>u v. cs = u @ p @ v)"
    proof (cases u)
      case Nil
      with uv show ?thesis by (auto simp: prefix_def)
    next
      case (Cons a u')
      with uv have "cs = u' @ p @ v" by simp
      then show ?thesis by blast
    qed
  next
    assume "prefix p (c # cs) \<or> (\<exists>u v. cs = u @ p @ v)"
    then show "\<exists>u v. c # cs = u @ p @ v"
    proof
      assume "prefix p (c # cs)"
      then obtain v where "c # cs = p @ v" by (auto simp: prefix_def)
      then have "c # cs = [] @ p @ v" by simp
      then show ?thesis by blast
    next
      assume "\<exists>u v. cs = u @ p @ v"
      then obtain u v where "cs = u @ p @ v" by blast
      then have "c # cs = (c # u) @ p @ v" by simp
      then show ?thesis by blast
    qed
  qed
  with Cons show ?case by simp
qed

lemma lower_char_idem: "lower_char (lower_char c) = lower_char c"
  by (auto simp add: lower_char_def split: option.splits if_splits)

lemma lower_idem: "lower (lower s) = lower s"
  by (simp add: lower_def lower_char_idem)

text \<open>
  C6. The content type of a display name is decided on the lowered name, by substring
  tests in a fixed order: \<^verbatim>\<open>qa\<close> gives \<^verbatim>\<open>Q&A\<close>; otherwise \<^verbatim>\<open>practice\<close> gives
  \<^verbatim>\<open>Practice\<close>; otherwise \<^verbatim>\<open>dedication\<close> or \<^verbatim>\<open>prayer\<close> gives \<^verbatim>\<open>Prayer\<close>;
  otherwise the result is \<^verbatim>\<open>Teaching\<close>. The first rule that matches wins, and two
  names that differ only in letter case get the same type.
\<close>

theorem extract_content_type_priority:
  "extract_content_type name =
     (if (\<exists>u v. lower name = u @ ''qa'' @ v) then ''Q&A''
      else if (\<exists>u v. lower name = u @ ''practice'' @ v) then ''Practice''
      else if (\<exists>u v. lower name = u @ ''dedication'' @ v) \<or> (\<exists>u v. lower name = u @ ''prayer'' @ v)
        then ''Prayer''
      else ''Teaching'')
   \<and> (lower other = lower name \<longrightarrow> extract_content_type other = extract_content_type name)
   \<and> extract_content_type (lower name) = extract_content_type name"
  unfolding extract_content_type_def Let_def py_in_iff lower_idem
  by simp

theorem extract_content_type_priority_witness:
  "extract_content_type ''Practice QA before the Prayer'' = ''Q&A''
   \<and> extract_content_type ''PRAYER and practice'' = ''Practice''
   \<and> extract_content_type ''Dedication'' = ''Prayer''
   \<and> extract_content_type ''Q&A Session 1'' = ''Teaching''
   \<and> extract_content_type ''practice qa BEFORE THE prayer''
       = extract_content_type ''Practice QA before the Prayer''"
proof -
  have l: "lower ''practice qa BEFORE THE prayer'' = lower ''Practice QA before the Prayer''"
    by (simp add: lower_def lower_char_def)
  have a: "extract_content_type ''Practice QA before the Prayer'' = ''Q&A''"
    by (simp add: extract_content_type_def lower_def lower_char_def)
  have b: "extract_content_type ''PRAYER and practice'' = ''Practice''"
    by (simp add: extract_content_type_def lower_def lower_char_def)
  have c: "extract_content_type ''Dedication'' = ''Prayer''"
    by (simp add: extract_content_type_def lower_def lower_char_def)
  have d: "extract_content_type ''Q&A Session 1'' = ''Teaching''"
    by (simp add: extract_content_type_def lower_def lower_char_def)
  from extract_content_type_priority [of "''Practice QA before the Prayer''"
      "''practice qa BEFORE THE prayer''", THEN conjunct2, THEN conjunct1, rule_format, OF l]
    a b c d
  show ?thesis by simp
qed

section \<open>Properties of the catalog duration\<close>

lemma split_on_no_sep: "sep \<notin> set a \<Longrightarrow> split_on sep a = [a]"
  by (induction a) auto

lemma split_on_append: "sep \<notin> set a \<Longrightarrow> split_on sep (a @ sep # b) = a # split_on sep b"
  by (induction a) auto

lemma digit_not_space: "is_digit c \<Longrightarrow> \<not> is_space c"
  by (auto simp: is_digit_def is_space_def)

lemma digit_not_special: "is_digit c \<Longrightarrow> c \<noteq> CHR ''_'' \<and> c \<noteq> CHR ''-'' \<and> c \<noteq> CHR ''+'' \<and> c \<noteq> CHR '':''"
  by (auto simp: is_digit_def)

lemma digit_val_nonneg: "is_digit c \<Longrightarrow> 0 \<le> digit_val c"
  by (auto simp: is_digit_def digit_val_def)

lemma strip_digits:
  assumes "ds \<noteq> []" and "\<forall>c\<in>set ds. is_digit c"
  shows "strip ds = ds"
proof -
  from assms have "is_digit (hd ds)" "is_digit (last ds)"
    by simp_all
  then have h: "\<not> is_space (hd ds)" and l: "\<not> is_space (last ds)"
    by (simp_all add: digit_not_space)
  from assms(1) h have 1: "dropWhile is_space ds = ds"
    by (cases ds) auto
  from assms(1) l have "\<not> is_space (hd (rev ds))"
    by (simp add: hd_rev)
  with assms(1) have 2: "dropWhile is_space (rev ds) = rev ds"
    by (cases "rev ds") auto
  show ?thesis by (simp add: strip_def 1 2)
qed

lemma int_body_ok_digits: "ds \<noteq> [] \<Longrightarrow> \<forall>c\<in>set ds. is_digit c \<Longrightarrow> int_body_ok ds"
  by (induction ds rule: int_body_ok.induct) (auto dest: digit_not_special)

lemma foldl_digits_nonneg:
  "\<forall>c\<in>set ds. is_digit c \<Longrightarrow> 0 \<le> acc \<Longrightarrow> 0 \<le> foldl (\<lambda>acc c. acc * 10 + digit_val c) acc ds"
  by (induction ds arbitrary: acc) (auto simp: digit_val_nonneg)

lemma int_digits_digits: "\<forall>c\<in>set ds. is_digit c \<Longrightarrow> int_digits ds = ds"
proof -
  assume "\<forall>c\<in>set ds. is_digit c"
  then have "\<forall>c\<in>set ds. c \<noteq> CHR ''_''"
    using not_digit_underscore by blast
  then show ?thesis
    by (simp add: int_digits_def)
qed

lemma int_value_nonneg: "\<forall>c\<in>set ds. is_digit c \<Longrightarrow> 0 \<le> int_value ds"
  unfolding int_value_def by (rule foldl_digits_nonneg) (simp_all add: int_digits_digits)

lemma py_int_digits:
  assumes "ds \<noteq> []" and "\<forall>c\<in>set ds. is_digit c" and "length ds \<le> int_max_str_digits"
  shows "py_int ds = Inr (int_value ds)"
proof -
  obtain c r where ds: "ds = c # r" using assms(1) by (cases ds) auto
  with assms(2) have "is_digit c" by simp
  then have c: "c \<noteq> CHR ''-''" "c \<noteq> CHR ''+''" by (auto dest: digit_not_special)
  have s: "strip (c # r) = c # r"
    using strip_digits [OF assms(1,2)] ds by simp
  have ok: "int_body_ok (c # r)"
    using int_body_ok_digits [OF assms(1,2)] ds by simp
  have len: "length (int_digits (c # r)) \<le> int_max_str_digits"
    using int_digits_digits [OF assms(2)] assms(3) ds by simp
  have "py_int (c # r) = Inr (int_value (c # r))"
    unfolding py_int_def Let_def s using c ok len by simp
  with ds show ?thesis by simp
qed

lemma py_int_too_long:
  assumes "\<forall>c\<in>set ds. is_digit c" and "int_max_str_digits < length ds"
  shows "py_int ds = Inl ValueError"
proof -
  from assms(2) have ne: "ds \<noteq> []" by auto
  then obtain c r where ds: "ds = c # r" by (cases ds) auto
  with assms(1) have "is_digit c" by simp
  then have c: "c \<noteq> CHR ''-''" "c \<noteq> CHR ''+''" by (auto dest: digit_not_special)
  have s: "strip (c # r) = c # r"
    using strip_digits [OF ne assms(1)] ds by simp
  have len: "\<not> length (int_digits (c # r)) \<le> int_max_str_digits"
    using int_digits_digits [OF assms(1)] assms(2) ds by simp
  have "py_int (c # r) = Inl ValueError"
    unfolding py_int_def Let_def s using c len by simp
  with ds show ?thesis by simp
qed

lemma parse_duration_hms:
  assumes "hh \<noteq> []" "\<forall>c\<in>set hh. is_digit c" "mm \<noteq> []" "\<forall>c\<in>set mm. is_digit c"
    "ss \<noteq> []" "\<forall>c\<in>set ss. is_digit c"
    "length hh \<le> int_max_str_digits" "length mm \<le> int_max_str_digits"
    "length ss \<le> int_max_str_digits"
  shows "parse_duration (Some (hh @ '':'' @ mm @ '':'' @ ss))
           = Inr (int_value hh * 3600 + int_value mm * 60 + int_value ss)"
proof -
  have d: "\<not> is_digit CHR '':''"
    by (simp add: is_digit_def)
  have n: "CHR '':'' \<notin> set hh" "CHR '':'' \<notin> set mm" "CHR '':'' \<notin> set ss"
    using assms(2,4,6) d by blast+
  have "split_on CHR '':'' (hh @ CHR '':'' # mm @ CHR '':'' # ss) = [hh, mm, ss]"
    by (simp add: split_on_append split_on_no_sep n)
  then have "map py_int (split_on CHR '':'' (hh @ '':'' @ mm @ '':'' @ ss))
      = [Inr (int_value hh), Inr (int_value mm), Inr (int_value ss)]"
    by (simp add: py_int_digits [OF assms(1,2,7)] py_int_digits [OF assms(3,4,8)]
        py_int_digits [OF assms(5,6,9)])
  then show ?thesis
    unfolding parse_duration_def by simp
qed

lemma hms_case:
  "(\<exists>h m s. xs = [Inr h, Inr m, Inr s]
        \<and> (case xs of [Inr h, Inr m, Inr s] \<Rightarrow> Inr (f h m s) | _ \<Rightarrow> Inl ValueError) = Inr (f h m s))
   \<or> ((\<nexists>h m s. xs = [Inr h, Inr m, Inr s])
        \<and> (case xs of [Inr h, Inr m, Inr s] \<Rightarrow> Inr (f h m s) | _ \<Rightarrow> Inl ValueError) = Inl ValueError)"
proof (cases xs)
  case Nil
  then show ?thesis by simp
next
  case c1: (Cons a xs1)
  show ?thesis
  proof (cases xs1)
    case Nil
    with c1 show ?thesis by (cases a) simp_all
  next
    case c2: (Cons b xs2)
    show ?thesis
    proof (cases xs2)
      case Nil
      with c1 c2 show ?thesis by (cases a; cases b) simp_all
    next
      case c3: (Cons c xs3)
      show ?thesis
      proof (cases xs3)
        case Nil
        with c1 c2 c3 show ?thesis by (cases a; cases b; cases c) simp_all
      next
        case (Cons d xs4)
        with c1 c2 c3 show ?thesis by (cases a; cases b; cases c) simp_all
      qed
    qed
  qed
qed

lemma parse_duration_Some:
  "(\<exists>h m s. map py_int (split_on CHR '':'' str) = [Inr h, Inr m, Inr s]
        \<and> parse_duration (Some str) = Inr (h * 3600 + m * 60 + s))
   \<or> ((\<nexists>h m s. map py_int (split_on CHR '':'' str) = [Inr h, Inr m, Inr s])
        \<and> parse_duration (Some str) = Inl ValueError)"
  unfolding parse_duration_def option.case
  by (rule hms_case)

lemma parse_duration_fields:
  assumes "length (split_on CHR '':'' str) \<noteq> 3"
  shows "parse_duration (Some str) = Inl ValueError"
proof -
  have "\<nexists>h m s. map py_int (split_on CHR '':'' str) = [Inr h, Inr m, Inr s]"
  proof
    assume "\<exists>h m s. map py_int (split_on CHR '':'' str) = [Inr h, Inr m, Inr s]"
    then obtain h m s where "map py_int (split_on CHR '':'' str) = [Inr h, Inr m, Inr s]"
      by auto
    then have "length (map py_int (split_on CHR '':'' str)) = 3" by simp
    with assms show False by simp
  qed
  with parse_duration_Some [of str] show ?thesis by simp
qed

lemma parse_duration_long_field:
  assumes "\<forall>c\<in>set hh. is_digit c" and "int_max_str_digits < length hh"
  shows "parse_duration (Some (hh @ '':'' @ rest)) = Inl ValueError"
proof -
  have d: "\<not> is_digit CHR '':''"
    by (simp add: is_digit_def)
  have n: "CHR '':'' \<notin> set hh"
    using assms(1) d by blast
  have sp: "split_on CHR '':'' (hh @ CHR '':'' # rest) = hh # split_on CHR '':'' rest"
    by (rule split_on_append [OF n])
  have "\<nexists>h m s. map py_int (split_on CHR '':'' (hh @ '':'' @ rest)) = [Inr h, Inr m, Inr s]"
    by (simp add: sp py_int_too_long [OF assms])
  with parse_duration_Some [of "hh @ '':'' @ rest"] show ?thesis by simp
qed

text \<open>
  C4, as the code has it. An absent duration yields 0. A string is split at the colons
  and each field is read by \<^verbatim>\<open>int\<close>: when that gives exactly three integers the
  result is \<open>h * 3600 + m * 60 + s\<close>, and in every other case \<^verbatim>\<open>ValueError\<close> is
  raised. So a string with a number of fields other than three raises; a
  \<^verbatim>\<open>HH:MM:SS\<close> string of three non-empty digit fields, none longer than the
  interpreter's limit for \<^verbatim>\<open>int\<close>, yields a non-negative number of seconds; and a
  first field of more digits than that limit raises.
\<close>

theorem parse_duration_values:
  "parse_duration None = Inr 0
   \<and> ((\<exists>h m s. map py_int (split_on CHR '':'' str) = [Inr h, Inr m, Inr s]
          \<and> parse_duration (Some str) = Inr (h * 3600 + m * 60 + s))
      \<or> ((\<nexists>h m s. map py_int (split_on CHR '':'' str) = [Inr h, Inr m, Inr s])
          \<and> parse_duration (Some str) = Inl ValueError))
   \<and> (length (split_on CHR '':'' str) \<noteq> 3 \<longrightarrow> parse_duration (Some str) = Inl ValueError)
   \<and> (hh \<noteq> [] \<and> (\<forall>c\<in>set hh. is_digit c) \<and> mm \<noteq> [] \<and> (\<forall>c\<in>set mm. is_digit c)
        \<and> ss \<noteq> [] \<and> (\<forall>c\<in>set ss. is_digit c)
        \<and> length hh \<le> int_max_str_digits \<and> length mm \<le> int_max_str_digits
        \<and> length ss \<le> int_max_str_digits
      \<longrightarrow> parse_duration (Some (hh @ '':'' @ mm @ '':'' @ ss))
            = Inr (int_value hh * 3600 + int_value mm * 60 + int_value ss)
          \<and> 0 \<le> int_value hh * 3600 + int_value mm * 60 + int_value ss)
   \<and> ((\<forall>c\<in>set hh. is_digit c) \<and> int_max_str_digits < length hh
      \<longrightarrow> parse_duration (Some (hh @ '':'' @ rest)) = Inl ValueError)"
proof (intro conjI impI)
  show "parse_duration None = Inr 0"
    by (simp add: parse_duration_def)
  show "(\<exists>h m s. map py_int (split_on CHR '':'' str) = [Inr h, Inr m, Inr s]
          \<and> parse_duration (Some str) = Inr (h * 3600 + m * 60 + s))
      \<or> ((\<nexists>h m s. map py_int (split_on CHR '':'' str) = [Inr h, Inr m, Inr s])
          \<and> parse_duration (Some str) = Inl ValueError)"
    by (rule parse_duration_Some)
next
  assume "length (split_on CHR '':'' str) \<noteq> 3"
  then show "parse_duration (Some str) = Inl ValueError"
    by (rule parse_duration_fields)
next
  assume a: "hh \<noteq> [] \<and> (\<forall>c\<in>set hh. is_digit c) \<and> mm \<noteq> [] \<and> (\<forall>c\<in>set mm. is_digit c)
        \<and> ss \<noteq> [] \<and> (\<forall>c\<in>set ss. is_digit c)
        \<and> length hh \<le> int_max_str_digits \<and> length mm \<le> int_max_str_digits
        \<and> length ss \<le> int_max_str_digits"
  then show "parse_duration (Some (hh @ '':'' @ mm @ '':'' @ ss))
            = Inr (int_value hh * 3600 + int_value mm * 60 + int_value ss)"
    by (intro parse_duration_hms) simp_all
  from a have "0 \<le> int_value hh" "0 \<le> int_value mm" "0 \<le> int_value ss"
    by (simp_all add: int_value_nonneg)
  then show "0 \<le> int_value hh * 3600 + int_value mm * 60 + int_value ss"
    by simp
next
  assume "(\<forall>c\<in>set hh. is_digit c) \<and> int_max_str_digits < length hh"
  then show "parse_duration (Some (hh @ '':'' @ rest)) = Inl ValueError"
    by (intro parse_duration_long_field) simp_all
qed

theorem parse_duration_values_witness:
  "parse_duration None = Inr 0
   \<and> parse_duration (Some ''00:06:00'') = Inr 360
   \<and> parse_duration (Some ''12:30'') = Inl ValueError
   \<and> parse_duration (Some '' 1 :+02:0_3'') = Inr 3723
   \<and> parse_duration (Some (CHR 0x1C # ''0:0:0'')) = Inl ValueError
   \<and> parse_duration (Some ''1:2:3:4'') = Inl ValueError
   \<and> parse_duration (Some ''0x10:0:0'') = Inl ValueError"
proof -
  have d: "\<forall>c\<in>set ''00''. is_digit c" "\<forall>c\<in>set ''06''. is_digit c"
    by (simp_all add: is_digit_def)
  have n: "length ''00'' \<le> int_max_str_digits" "length ''06'' \<le> int_max_str_digits"
    by (simp_all add: int_max_str_digits_def)
  have v: "int_value ''00'' = 0" "int_value ''06'' = 6"
    by (simp_all add: int_value_def int_digits_def digit_val_def)
  have l: "length (split_on CHR '':'' ''12:30'') \<noteq> 3"
    by simp
  note t = parse_duration_values [of "''12:30''" "''00''" "''06''" "''00''"]
  from t have 1: "parse_duration None = Inr 0"
    by (rule conjunct1)
  from t d n have 2: "parse_duration (Some (''00'' @ '':'' @ ''06'' @ '':'' @ ''00''))
      = Inr (int_value ''00'' * 3600 + int_value ''06'' * 60 + int_value ''00'')"
    by simp
  from t l have 3: "parse_duration (Some ''12:30'') = Inl ValueError"
    by blast
  have 4: "parse_duration (Some '' 1 :+02:0_3'') = Inr 3723"
    "parse_duration (Some (CHR 0x1C # ''0:0:0'')) = Inl ValueError"
    "parse_duration (Some ''1:2:3:4'') = Inl ValueError"
    "parse_duration (Some ''0x10:0:0'') = Inl ValueError"
    by code_simp+
  from 1 2 3 4 show ?thesis
    by (simp add: v)
qed

theorem parse_duration_malformed_counterexample:
  "parse_duration (Some ''abc'') = Inl ValueError
   \<and> parse_duration (Some ''-1:00:00'') = Inr (- 3600)"
  by code_simp

section \<open>Properties of the duration filter\<close>

lemma in_duration_range_finite:
  "in_duration_range (Finite lo) (Finite hi) d \<longleftrightarrow> (\<exists>x. d = Finite x \<and> lo \<le> x \<and> x \<le> hi)"
  by (cases d) (auto simp: in_duration_range_def float_ge_def)

lemma read_frame_nth: "k < length rows \<Longrightarrow> read_frame rows ! k = (k, rows ! k)"
  by (simp add: read_frame_def)

lemma length_read_frame: "length (read_frame rows) = length rows"
  by (simp add: read_frame_def)

lemma map_fst_read_frame: "map fst (read_frame rows) = [0..<length rows]"
  by (simp add: read_frame_def)

lemma map_snd_read_frame: "map snd (read_frame rows) = rows"
  by (simp add: read_frame_def)

lemma astype_float_Inr:
  "astype_float fr = Inr rs \<Longrightarrow>
     list_all2 (\<lambda>x y. fst y = fst x \<and> audio_duration (snd x) = Number (audio_duration (snd y))
        \<and> file_name (snd y) = file_name (snd x) \<and> url (snd y) = url (snd x)
        \<and> inference_transcript (snd y) = inference_transcript (snd x)) fr rs"
proof (induction fr arbitrary: rs)
  case Nil
  then show ?case by simp
next
  case (Cons x fr)
  obtain i r where x: "x = (i, r)" by (cases x)
  from Cons.prems x obtain f rs' where f: "audio_duration r = Number f"
    and rs': "astype_float fr = Inr rs'"
    and rs: "rs = (i, \<lparr>file_name = file_name r, url = url r, audio_duration = f,
                         inference_transcript = inference_transcript r\<rparr>) # rs'"
    by (cases "audio_duration r") (auto split: sum.splits)
  from Cons.IH [OF rs'] x f rs show ?case by simp
qed

lemma astype_float_Text:
  "\<exists>x\<in>set fr. \<exists>s. audio_duration (snd x) = Text s \<Longrightarrow> astype_float fr = Inl ValueError"
proof (induction fr)
  case Nil
  then show ?case by simp
next
  case (Cons x fr)
  obtain i r where x: "x = (i, r)" by (cases x)
  show ?case
  proof (cases "audio_duration r")
    case (Text s)
    with x show ?thesis by simp
  next
    case (Number f)
    with Cons.prems x have "\<exists>x\<in>set fr. \<exists>s. audio_duration (snd x) = Text s" by auto
    from Cons.IH [OF this] Number x show ?thesis by simp
  qed
qed

lemma astype_float_Number:
  "\<forall>x\<in>set fr. \<exists>f. audio_duration (snd x) = Number f \<Longrightarrow> \<exists>rs. astype_float fr = Inr rs"
proof (induction fr)
  case Nil
  then show ?case by simp
next
  case (Cons x fr)
  obtain i r where x: "x = (i, r)" by (cases x)
  from Cons.prems x obtain f where f: "audio_duration r = Number f" by auto
  from Cons.prems have "\<forall>x\<in>set fr. \<exists>f. audio_duration (snd x) = Number f" by simp
  from Cons.IH [OF this] obtain rs where "astype_float fr = Inr rs" by blast
  with x f show ?case by simp
qed

lemma valid_segments_of_mem:
  assumes "valid_segments_of L H rows = Inr valid"
  shows "(i, r) \<in> set valid \<longleftrightarrow>
           i < length rows \<and> audio_duration (rows ! i) = Number (audio_duration r)
           \<and> in_duration_range L H (audio_duration r)
           \<and> file_name r = file_name (rows ! i) \<and> url r = url (rows ! i)
           \<and> inference_transcript r = inference_transcript (rows ! i)"
proof -
  from assms obtain rs where rs: "astype_float (read_frame rows) = Inr rs"
    and valid: "valid = filter_duration L H rs"
    by (auto simp: valid_segments_of_def split: sum.splits)
  note l2 = astype_float_Inr [OF rs]
  then have len: "length rs = length rows"
    by (auto dest: list_all2_lengthD simp: length_read_frame)
  have nth: "fst (rs ! k) = k \<and> audio_duration (rows ! k) = Number (audio_duration (snd (rs ! k)))
        \<and> file_name (snd (rs ! k)) = file_name (rows ! k) \<and> url (snd (rs ! k)) = url (rows ! k)
        \<and> inference_transcript (snd (rs ! k)) = inference_transcript (rows ! k)"
    if "k < length rows" for k
    using list_all2_nthD [OF l2, of k] that by (simp add: length_read_frame read_frame_nth)
  show ?thesis
  proof
    assume "(i, r) \<in> set valid"
    with valid have m: "(i, r) \<in> set rs" and rg: "in_duration_range L H (audio_duration r)"
      by (auto simp: filter_duration_def)
    from m obtain k where k: "k < length rs" "rs ! k = (i, r)"
      by (auto simp: in_set_conv_nth)
    with nth [of k] len rg show "i < length rows \<and> audio_duration (rows ! i) = Number (audio_duration r)
           \<and> in_duration_range L H (audio_duration r)
           \<and> file_name r = file_name (rows ! i) \<and> url r = url (rows ! i)
           \<and> inference_transcript r = inference_transcript (rows ! i)"
      by auto
  next
    assume a: "i < length rows \<and> audio_duration (rows ! i) = Number (audio_duration r)
           \<and> in_duration_range L H (audio_duration r)
           \<and> file_name r = file_name (rows ! i) \<and> url r = url (rows ! i)
           \<and> inference_transcript r = inference_transcript (rows ! i)"
    with nth [of i] have "snd (rs ! i) = r" "fst (rs ! i) = i"
      by auto
    then have "rs ! i = (i, r)" by (cases "rs ! i") simp
    with a len have "(i, r) \<in> set rs" by (auto simp: in_set_conv_nth)
    with a valid show "(i, r) \<in> set valid" by (simp add: filter_duration_def)
  qed
qed

text \<open>
  C3, as the code has it. With finite bounds the range test holds exactly for the finite
  durations \<open>d\<close> with \<open>lo \<le> d \<le> hi\<close>: both bounds are included, every value
  below or above is excluded, and so are \<^verbatim>\<open>NaN\<close> and the infinities. When every
  duration cell is a number, the filter returns exactly the rows whose duration passes
  the test, each under its index and with its other fields unchanged. When some cell
  holds text that is not a number, the conversion of the column raises
  \<^verbatim>\<open>ValueError\<close> and no table is produced.
\<close>

theorem duration_filter_inclusive:
  "(in_duration_range (Finite lo) (Finite hi) d \<longleftrightarrow> (\<exists>x. d = Finite x \<and> lo \<le> x \<and> x \<le> hi))
   \<and> ((\<forall>row\<in>set rows. \<exists>f. audio_duration row = Number f) \<longrightarrow>
        (\<exists>valid. valid_segments_of L H rows = Inr valid
           \<and> (\<forall>i r. (i, r) \<in> set valid \<longleftrightarrow>
                  i < length rows \<and> audio_duration (rows ! i) = Number (audio_duration r)
                  \<and> in_duration_range L H (audio_duration r)
                  \<and> file_name r = file_name (rows ! i) \<and> url r = url (rows ! i)
                  \<and> inference_transcript r = inference_transcript (rows ! i))))
   \<and> ((\<exists>row\<in>set rows. \<exists>s. audio_duration row = Text s) \<longrightarrow>
        valid_segments_of L H rows = Inl ValueError)"
proof (intro conjI impI)
  show "in_duration_range (Finite lo) (Finite hi) d \<longleftrightarrow> (\<exists>x. d = Finite x \<and> lo \<le> x \<and> x \<le> hi)"
    by (rule in_duration_range_finite)
next
  assume "\<forall>row\<in>set rows. \<exists>f. audio_duration row = Number f"
  then have "\<forall>x\<in>set (read_frame rows). \<exists>f. audio_duration (snd x) = Number f"
    using map_snd_read_frame [of rows] by (metis imageI set_map)
  from astype_float_Number [OF this] obtain rs where "astype_float (read_frame rows) = Inr rs"
    by blast
  then have v: "valid_segments_of L H rows = Inr (filter_duration L H rs)"
    by (simp add: valid_segments_of_def)
  from valid_segments_of_mem [OF v] v
  show "\<exists>valid. valid_segments_of L H rows = Inr valid
           \<and> (\<forall>i r. (i, r) \<in> set valid \<longleftrightarrow>
                  i < length rows \<and> audio_duration (rows ! i) = Number (audio_duration r)
                  \<and> in_duration_range L H (audio_duration r)
                  \<and> file_name r = file_name (rows ! i) \<and> url r = url (rows ! i)
                  \<and> inference_transcript r = inference_transcript (rows ! i))"
    by blast
next
  assume "\<exists>row\<in>set rows. \<exists>s. audio_duration row = Text s"
  then have "\<exists>x\<in>set (read_frame rows). \<exists>s. audio_duration (snd x) = Text s"
    using map_snd_read_frame [of rows] by (metis imageE set_map)
  from astype_float_Text [OF this] show "valid_segments_of L H rows = Inl ValueError"
    by (simp add: valid_segments_of_def)
qed

theorem duration_filter_inclusive_witness:
  "(\<exists>valid. valid_segments_of MIN_SEGMENT_DURATION MAX_SEGMENT_DURATION example_rows = Inr valid
      \<and> map fst valid = [0, 1, 2, 5, 6, 7])
   \<and> in_duration_range MIN_SEGMENT_DURATION MAX_SEGMENT_DURATION (Finite 0.5)
   \<and> in_duration_range MIN_SEGMENT_DURATION MAX_SEGMENT_DURATION (Finite 30.0)
   \<and> \<not> in_duration_range MIN_SEGMENT_DURATION MAX_SEGMENT_DURATION (Finite 0.49)
   \<and> \<not> in_duration_range MIN_SEGMENT_DURATION MAX_SEGMENT_DURATION (Finite 30.01)
   \<and> \<not> in_duration_range MIN_SEGMENT_DURATION MAX_SEGMENT_DURATION NaN"
proof -
  note t = duration_filter_inclusive [of "0.5" "30.0" _ example_rows
      MIN_SEGMENT_DURATION MAX_SEGMENT_DURATION]
  have num: "\<forall>row\<in>set example_rows. \<exists>f. audio_duration row = Number f"
    by (simp add: example_rows_def example_row_def)
  from t [THEN conjunct2, THEN conjunct1, THEN mp, OF num]
  obtain valid where v: "valid_segments_of MIN_SEGMENT_DURATION MAX_SEGMENT_DURATION example_rows = Inr valid"
    by blast
  have e: "map_sum id (map fst) (valid_segments_of MIN_SEGMENT_DURATION MAX_SEGMENT_DURATION example_rows)
      = Inr [0, 1, 2, 5, 6, 7]"
    by (simp add: valid_segments_of_def read_frame_def example_rows_def example_row_def
        filter_duration_def in_duration_range_def float_ge_def MIN_SEGMENT_DURATION_def
        MAX_SEGMENT_DURATION_def upt_rec_numeral)
  from v e have 1: "\<exists>valid. valid_segments_of MIN_SEGMENT_DURATION MAX_SEGMENT_DURATION example_rows = Inr valid
      \<and> map fst valid = [0, 1, 2, 5, 6, 7]"
    by simp
  have 2: "in_duration_range MIN_SEGMENT_DURATION MAX_SEGMENT_DURATION (Finite 0.5)"
    "in_duration_range MIN_SEGMENT_DURATION MAX_SEGMENT_DURATION (Finite 30.0)"
    "\<not> in_duration_range MIN_SEGMENT_DURATION MAX_SEGMENT_DURATION (Finite 0.49)"
    "\<not> in_duration_range MIN_SEGMENT_DURATION MAX_SEGMENT_DURATION (Finite 30.01)"
    "\<not> in_duration_range MIN_SEGMENT_DURATION MAX_SEGMENT_DURATION NaN"
    unfolding MIN_SEGMENT_DURATION_def MAX_SEGMENT_DURATION_def
    by (simp_all add: in_duration_range_def float_ge_def)
  from 1 2 show ?thesis by blast
qed

theorem duration_filter_text_counterexample:
  "valid_segments_of MIN_SEGMENT_DURATION MAX_SEGMENT_DURATION
     [example_row ''STT_GR_0001_0001_0_to_5500'' (Number (Finite 5.5)) None,
      example_row ''STT_GR_0001_0002_5500_to_6000'' (Text ''abc'') None]
   = Inl ValueError"
  by (simp add: valid_segments_of_def read_frame_def example_row_def)

section \<open>Properties of the output tables\<close>

lemma select_formatted_df_row:
  "select_columns columns_order (formatted_df_row has_tr r n) =
     Inr [(''file_name'', StrV (file_name r)),
          (''url'', StrV (url r)),
          (''inference_transcript'',
             if has_tr then text_cell (inference_transcript r) else StrV ''''),
          (''audio_duration'', FloatV (audio_duration r)),
          (''group_id'', IntV 33),
          (''state'', StrV ''transcribing''),
          (''id'', IntV n)]"
  by (cases has_tr)
    (simp_all add: columns_order_def formatted_df_row_def benchmark_df_row_def has_column_def)

lemma collect_map_Inr:
  "(\<And>x. x \<in> set xs \<Longrightarrow> f x = Inr (g x)) \<Longrightarrow> collect (map f xs) = Inr (map g xs)"
  by (induction xs) simp_all

lemma formatted_output_eq:
  "formatted_output has_tr df =
     Inr (map (\<lambda>((i, r), n).
            [(''file_name'', StrV (file_name r)),
             (''url'', StrV (url r)),
             (''inference_transcript'',
                if has_tr then text_cell (inference_transcript r) else StrV ''''),
             (''audio_duration'', FloatV (audio_duration r)),
             (''group_id'', IntV 33),
             (''state'', StrV ''transcribing''),
             (''id'', IntV (int n))])
          (zip df [2159570 ..< 2159570 + length df]))"
  unfolding formatted_output_def
  by (rule collect_map_Inr) (simp add: select_formatted_df_row split: prod.splits)

text \<open>
  C7. The table for upload has one row for each row of the selection, in the same order.
  Each row has the columns \<^verbatim>\<open>file_name, url, inference_transcript, audio_duration,
  group_id, state, id\<close> in this order; \<^verbatim>\<open>group_id\<close> is 33 and \<^verbatim>\<open>state\<close> is
  \<^verbatim>\<open>transcribing\<close> in every row; the \<^verbatim>\<open>id\<close> of row \<open>k\<close> (counted from 0) is
  \<open>2159570 + k\<close>, so the identifiers are the run \<open>2159570, 2159571, \<dots>\<close> without gap
  or repeat. Building the table never fails.
\<close>

theorem formatted_output_sequential_ids:
  "\<exists>rows. formatted_output has_tr df = Inr rows
     \<and> length rows = length df
     \<and> (\<forall>k<length df.
           rows ! k =
             [(''file_name'', StrV (file_name (snd (df ! k)))),
              (''url'', StrV (url (snd (df ! k)))),
              (''inference_transcript'',
                 if has_tr then text_cell (inference_transcript (snd (df ! k))) else StrV ''''),
              (''audio_duration'', FloatV (audio_duration (snd (df ! k)))),
              (''group_id'', IntV 33),
              (''state'', StrV ''transcribing''),
              (''id'', IntV (2159570 + int k))])
     \<and> (\<forall>row\<in>set rows. map fst row = columns_order)
     \<and> map (\<lambda>row. map_of row ''id'') rows
         = map (\<lambda>n. Some (IntV (int n))) [2159570 ..< 2159570 + length df]"
proof -
  let ?f = "\<lambda>((i, r), n).
            [(''file_name'', StrV (file_name r)),
             (''url'', StrV (url r)),
             (''inference_transcript'',
                if has_tr then text_cell (inference_transcript r) else StrV ''''),
             (''audio_duration'', FloatV (audio_duration r)),
             (''group_id'', IntV 33),
             (''state'', StrV ''transcribing''),
             (''id'', IntV (int n))]"
  let ?z = "zip df [2159570 ..< 2159570 + length df]"
  let ?rows = "map ?f ?z"
  have eq: "formatted_output has_tr df = Inr ?rows"
    by (rule formatted_output_eq)
  have len: "length ?rows = length df"
    by simp
  have nth: "?rows ! k =
             [(''file_name'', StrV (file_name (snd (df ! k)))),
              (''url'', StrV (url (snd (df ! k)))),
              (''inference_transcript'',
                 if has_tr then text_cell (inference_transcript (snd (df ! k))) else StrV ''''),
              (''audio_duration'', FloatV (audio_duration (snd (df ! k)))),
              (''group_id'', IntV 33),
              (''state'', StrV ''transcribing''),
              (''id'', IntV (2159570 + int k))]" if "k < length df" for k
    using that by (simp add: split_beta)
  have cols: "\<forall>row\<in>set ?rows. map fst row = columns_order"
    by (auto simp: columns_order_def)
  have "map (\<lambda>row. map_of row ''id'') ?rows = map ((\<lambda>n. Some (IntV (int n))) \<circ> snd) ?z"
    by (simp add: split_beta)
  also have "\<dots> = map (\<lambda>n. Some (IntV (int n))) (map snd ?z)"
    by (simp only: map_map)
  also have "map snd ?z = [2159570 ..< 2159570 + length df]"
    by simp
  finally have ids: "map (\<lambda>row. map_of row ''id'') ?rows
         = map (\<lambda>n. Some (IntV (int n))) [2159570 ..< 2159570 + length df]" .
  from eq len nth cols ids show ?thesis by blast
qed

theorem formatted_output_sequential_ids_witness:
  "\<exists>rows. formatted_output True example_benchmark = Inr rows
     \<and> length rows = 3
     \<and> map (\<lambda>row. map_of row ''id'') rows
         = [Some (IntV 2159570), Some (IntV 2159571), Some (IntV 2159572)]
     \<and> rows ! 2 =
         [(''file_name'', StrV ''STT_GR_0002_0003_30500_to_40000''),
          (''url'', StrV ''https://audio.example/STT_GR_0002_0003_30500_to_40000''),
          (''inference_transcript'', StrV ''hung''),
          (''audio_duration'', FloatV (Finite 9.5)),
          (''group_id'', IntV 33),
          (''state'', StrV ''transcribing''),
          (''id'', IntV 2159572)]"
proof -
  have l: "length example_benchmark = 3"
    by (simp add: example_benchmark_def)
  have r: "snd (example_benchmark ! 2) =
      \<lparr>file_name = ''STT_GR_0002_0003_30500_to_40000'',
       url = ''https://audio.example/STT_GR_0002_0003_30500_to_40000'',
       audio_duration = Finite 9.5, inference_transcript = Some ''hung'',
       original_id = ''STT_GR_0002'', strata = Some ''Senior__short__Prayer'',
       age_group = ''Senior'', bm_duration_category = ''short'',
       bm_content_type = ''Prayer''\<rparr>"
    by (simp add: example_benchmark_def)
  have u: "[2159570 ..< 2159570 + (3::nat)] = [2159570, 2159571, 2159572]"
    by (simp add: upt_rec_numeral)
  from formatted_output_sequential_ids [of True example_benchmark]
  obtain rows where rows: "formatted_output True example_benchmark = Inr rows"
    "length rows = length example_benchmark"
    "\<forall>k<length example_benchmark.
           rows ! k =
             [(''file_name'', StrV (file_name (snd (example_benchmark ! k)))),
              (''url'', StrV (url (snd (example_benchmark ! k)))),
              (''inference_transcript'',
                 if True then text_cell (inference_transcript (snd (example_benchmark ! k)))
                 else StrV ''''),
              (''audio_duration'', FloatV (audio_duration (snd (example_benchmark ! k)))),
              (''group_id'', IntV 33),
              (''state'', StrV ''transcribing''),
              (''id'', IntV (2159570 + int k))]"
    "map (\<lambda>row. map_of row ''id'') rows
         = map (\<lambda>n. Some (IntV (int n))) [2159570 ..< 2159570 + length example_benchmark]"
    by blast
  from rows(3) l have "rows ! 2 =
             [(''file_name'', StrV (file_name (snd (example_benchmark ! 2)))),
              (''url'', StrV (url (snd (example_benchmark ! 2)))),
              (''inference_transcript'',
                 if True then text_cell (inference_transcript (snd (example_benchmark ! 2)))
                 else StrV ''''),
              (''audio_duration'', FloatV (audio_duration (snd (example_benchmark ! 2)))),
              (''group_id'', IntV 33),
              (''state'', StrV ''transcribing''),
              (''id'', IntV (2159570 + int 2))]"
    by simp
  then have 2: "rows ! 2 =
         [(''file_name'', StrV ''STT_GR_0002_0003_30500_to_40000''),
          (''url'', StrV ''https://audio.example/STT_GR_0002_0003_30500_to_40000''),
          (''inference_transcript'', StrV ''hung''),
          (''audio_duration'', FloatV (Finite 9.5)),
          (''group_id'', IntV 33),
          (''state'', StrV ''transcribing''),
          (''id'', IntV 2159572)]"
    by (simp add: r text_cell_def)
  from rows(4) have 3: "map (\<lambda>row. map_of row ''id'') rows
         = [Some (IntV 2159570), Some (IntV 2159571), Some (IntV 2159572)]"
    by (simp add: l u)
  from rows(1,2) l 2 3 show ?thesis by simp
qed

lemma json_transcript_entry:
  "json_transcript (benchmark_json_entry has_tr r)
     = Some (if has_tr then json_cell (inference_transcript r) else JString '''')"
  by (simp add: json_transcript_def benchmark_json_entry_def)

text \<open>
  C9, as the code has it. The test for the transcript is on the column, not on the
  cell. When the segments table has no transcript column, every row of the table for
  upload and every JSON entry carries the empty string, and when the table has the column
  each row carries its own cell: the text, or \<^verbatim>\<open>NaN\<close> for an empty cell, for which
  nothing is substituted. Neither output fails in either case.
\<close>

theorem transcript_column_substitution:
  "(\<exists>rows. formatted_output has_tr df = Inr rows
      \<and> map (\<lambda>row. map_of row ''inference_transcript'') rows
          = map (\<lambda>x. Some (if has_tr
                              then (case inference_transcript (snd x) of
                                      None \<Rightarrow> FloatV NaN | Some s \<Rightarrow> StrV s)
                              else StrV '''')) df)
   \<and> json_transcript (benchmark_json_entry has_tr r)
       = Some (if has_tr
               then (case inference_transcript r of None \<Rightarrow> JNumber NaN | Some s \<Rightarrow> JString s)
               else JString '''')"
proof
  let ?f = "\<lambda>((i, r), n).
            [(''file_name'', StrV (file_name r)),
             (''url'', StrV (url r)),
             (''inference_transcript'',
                if has_tr then text_cell (inference_transcript r) else StrV ''''),
             (''audio_duration'', FloatV (audio_duration r)),
             (''group_id'', IntV 33),
             (''state'', StrV ''transcribing''),
             (''id'', IntV (int n))]"
  let ?z = "zip df [2159570 ..< 2159570 + length df]"
  let ?g = "\<lambda>x. Some (if has_tr
                              then (case inference_transcript (snd x) of
                                      None \<Rightarrow> FloatV NaN | Some s \<Rightarrow> StrV s)
                              else StrV '''')"
  have "map (\<lambda>row. map_of row ''inference_transcript'') (map ?f ?z) = map (?g \<circ> fst) ?z"
    by (simp add: split_beta text_cell_def)
  also have "\<dots> = map ?g (map fst ?z)"
    by (simp only: map_map)
  also have "map fst ?z = df"
    by simp
  finally have "map (\<lambda>row. map_of row ''inference_transcript'') (map ?f ?z) = map ?g df" .
  with formatted_output_eq [of has_tr df]
  show "\<exists>rows. formatted_output has_tr df = Inr rows
      \<and> map (\<lambda>row. map_of row ''inference_transcript'') rows = map ?g df"
    by blast
next
  show "json_transcript (benchmark_json_entry has_tr r)
       = Some (if has_tr
               then (case inference_transcript r of None \<Rightarrow> JNumber NaN | Some s \<Rightarrow> JString s)
               else JString '''')"
    by (simp add: json_transcript_entry json_cell_def)
qed

theorem transcript_column_substitution_witness:
  "(\<exists>rows. formatted_output False example_benchmark = Inr rows
      \<and> map (\<lambda>row. map_of row ''inference_transcript'') rows
          = [Some (StrV ''''), Some (StrV ''''), Some (StrV '''')])
   \<and> (\<exists>rows. formatted_output True example_benchmark = Inr rows
      \<and> map (\<lambda>row. map_of row ''inference_transcript'') rows
          = [Some (StrV ''om''), Some (FloatV NaN), Some (StrV ''hung'')])
   \<and> json_transcript (benchmark_json_entry False (snd (example_benchmark ! 1)))
       = Some (JString '''')"
proof -
  have 1: "\<exists>rows. formatted_output False example_benchmark = Inr rows
      \<and> map (\<lambda>row. map_of row ''inference_transcript'') rows
          = [Some (StrV ''''), Some (StrV ''''), Some (StrV '''')]"
    using transcript_column_substitution [of False example_benchmark, THEN conjunct1]
    by (simp add: example_benchmark_def)
  have 2: "\<exists>rows. formatted_output True example_benchmark = Inr rows
      \<and> map (\<lambda>row. map_of row ''inference_transcript'') rows
          = [Some (StrV ''om''), Some (FloatV NaN), Some (StrV ''hung'')]"
    using transcript_column_substitution [of True example_benchmark, THEN conjunct1]
    by (simp add: example_benchmark_def)
  have 3: "json_transcript (benchmark_json_entry False (snd (example_benchmark ! 1)))
       = Some (JString '''')"
    using transcript_column_substitution [of False _ "snd (example_benchmark ! 1)", THEN conjunct2]
    by simp
  from 1 2 3 show ?thesis by blast
qed

theorem transcript_missing_cell_counterexample:
  "json_transcript (benchmark_json_entry True (snd (example_benchmark ! 1))) = Some (JNumber NaN)
   \<and> formatted_output True [example_benchmark ! 1]
       = Inr [[(''file_name'', StrV ''STT_GR_0001_0002_5500_to_6000''),
               (''url'', StrV ''https://audio.example/STT_GR_0001_0002_5500_to_6000''),
               (''inference_transcript'', FloatV NaN),
               (''audio_duration'', FloatV (Finite 0.5)),
               (''group_id'', IntV 33),
               (''state'', StrV ''transcribing''),
               (''id'', IntV 2159570)]]"
  by (simp add: json_transcript_entry json_cell_def example_benchmark_def formatted_output_eq
      text_cell_def)

section \<open>Properties of the stratified sampler\<close>

lemma shuffle_mset:
  "interval_ok rk \<Longrightarrow> i < length xs \<Longrightarrow> mset (fst (shuffle rk i xs g)) = mset xs"
proof (induction i arbitrary: xs g)
  case 0
  then show ?case by simp
next
  case (Suc i)
  obtain j g' where d: "rk (Suc i) g = (j, g')" by (cases "rk (Suc i) g")
  with Suc.prems(1) have j: "j \<le> Suc i"
    by (metis fst_conv interval_ok_def)
  let ?ys = "xs[Suc i := xs ! j, j := xs ! Suc i]"
  from j Suc.prems(2) have "mset ?ys = mset xs"
    by (simp add: mset_swap)
  moreover have "i < length ?ys"
    using Suc.prems(2) by simp
  ultimately show ?case
    using Suc.IH [OF Suc.prems(1), of ?ys g'] d by simp
qed

lemma permutation_mset:
  assumes "interval_ok rk"
  shows "mset (fst (permutation rk n g)) = mset [0..<n]"
proof (cases n)
  case 0
  then show ?thesis by (simp add: permutation_def)
next
  case (Suc m)
  then show ?thesis
    using shuffle_mset [OF assms, of m "[0..<n]" g] by (simp add: permutation_def)
qed

lemma permutation_props:
  assumes "interval_ok rk"
  shows "distinct (fst (permutation rk n g))"
    and "set (fst (permutation rk n g)) = {0..<n}"
    and "length (fst (permutation rk n g)) = n"
proof -
  note m = permutation_mset [OF assms, of n g]
  show "distinct (fst (permutation rk n g))"
    using mset_eq_imp_distinct_iff [OF m] by simp
  show "set (fst (permutation rk n g)) = {0..<n}"
    using mset_eq_setD [OF m] by simp
  show "length (fst (permutation rk n g)) = n"
    using mset_eq_length [OF m] by simp
qed

lemma sample_props:
  assumes ok: "interval_ok rk" and n: "n \<le> length frame" and d: "distinct (map fst frame)"
  shows "length (fst (sample rk n frame g)) = n"
    and "distinct (map fst (fst (sample rk n frame g)))"
    and "set (fst (sample rk n frame g)) \<subseteq> set frame"
proof -
  let ?idx = "fst (permutation rk (length frame) g)"
  have s: "fst (sample rk n frame g) = map (\<lambda>k. frame ! k) (take n ?idx)"
    by (simp add: sample_def split_beta)
  note p = permutation_props [OF ok, of "length frame" g]
  have bound: "\<forall>k\<in>set (take n ?idx). k < length frame"
    using p(2) by (auto dest: in_set_takeD)
  show "length (fst (sample rk n frame g)) = n"
    using n p(3) by (simp add: s)
  show "set (fst (sample rk n frame g)) \<subseteq> set frame"
    using bound by (auto simp: s)
  have "map fst (fst (sample rk n frame g)) = map (\<lambda>k. map fst frame ! k) (take n ?idx)"
    using bound by (simp add: s)
  moreover have "distinct (map (\<lambda>k. map fst frame ! k) (take n ?idx))"
  proof (rule iffD2 [OF distinct_map], intro conjI)
    show "distinct (take n ?idx)" using p(1) by simp
    show "inj_on (\<lambda>k. map fst frame ! k) (set (take n ?idx))"
      using inj_on_nth [OF d, of "set (take n ?idx)"] bound by simp
  qed
  ultimately show "distinct (map fst (fst (sample rk n frame g)))" by simp
qed

lemma select_stratum_props:
  assumes ok: "interval_ok rk" and d: "distinct (map fst G)"
  shows "length G \<le> T \<Longrightarrow> fst (select_stratum rk T G g) = G"
    and "length (fst (select_stratum rk T G g)) = min T (length G)"
    and "distinct (map fst (fst (select_stratum rk T G g)))"
    and "set (fst (select_stratum rk T G g)) \<subseteq> set G"
proof -
  show "length G \<le> T \<Longrightarrow> fst (select_stratum rk T G g) = G"
    by (simp add: select_stratum_def)
  show "length (fst (select_stratum rk T G g)) = min T (length G)"
    using sample_props(1) [OF ok _ d, of T g]
    by (cases "length G \<le> T") (simp_all add: select_stratum_def)
  show "distinct (map fst (fst (select_stratum rk T G g)))"
    using sample_props(2) [OF ok _ d, of T g] d
    by (cases "length G \<le> T") (simp_all add: select_stratum_def)
  show "set (fst (select_stratum rk T G g)) \<subseteq> set G"
    using sample_props(3) [OF ok _ d, of T g]
    by (cases "length G \<le> T") (simp_all add: select_stratum_def)
qed

lemma counter_add_keys:
  "map fst (counter_add k kvs) = (if k \<in> set (map fst kvs) then map fst kvs else map fst kvs @ [k])"
  by (induction kvs) force+

lemma foldl_counter_keys:
  "distinct (map fst acc) \<Longrightarrow>
     distinct (map fst (foldl (\<lambda>counts k. counter_add k counts) acc xs))
     \<and> set (map fst (foldl (\<lambda>counts k. counter_add k counts) acc xs)) = set (map fst acc) \<union> set xs"
proof (induction xs arbitrary: acc)
  case Nil
  then show ?case by simp
next
  case (Cons x xs)
  have "distinct (map fst (counter_add x acc))"
    using Cons.prems by (simp add: counter_add_keys)
  from Cons.IH [OF this] show ?case
    by (auto simp: counter_add_keys split: if_splits)
qed

lemma Counter_keys:
  "distinct (map fst (Counter xs))" "set (map fst (Counter xs)) = set xs"
  using foldl_counter_keys [of "[]" xs] by (simp_all add: Counter_def)

lemma distinct_stratum_rows: "distinct (map fst valid) \<Longrightarrow> distinct (map fst (stratum_rows valid k))"
  by (simp add: stratum_rows_def distinct_map_filter)

lemma sample_strata_length:
  "length (fst (sample_strata rk T valid counts g)) = length counts"
  by (induction counts arbitrary: g) (auto simp: split_beta Let_def)

lemma sample_strata_nth:
  assumes ok: "interval_ok rk" and d: "distinct (map fst valid)"
  shows "k < length counts \<Longrightarrow>
      (length (stratum_rows valid (fst (counts ! k))) \<le> T \<longrightarrow>
          fst (sample_strata rk T valid counts g) ! k = stratum_rows valid (fst (counts ! k)))
      \<and> length (fst (sample_strata rk T valid counts g) ! k)
          = min T (length (stratum_rows valid (fst (counts ! k))))
      \<and> distinct (map fst (fst (sample_strata rk T valid counts g) ! k))
      \<and> set (fst (sample_strata rk T valid counts g) ! k)
          \<subseteq> set (stratum_rows valid (fst (counts ! k)))"
proof (induction counts arbitrary: g k)
  case Nil
  then show ?case by simp
next
  case (Cons kc counts)
  obtain s c where kc: "kc = (s, c)" by (cases kc)
  note sp = select_stratum_props [where G = "stratum_rows valid s" and T = T and g = g,
      OF ok distinct_stratum_rows [OF d]]
  show ?case
  proof (cases k)
    case 0
    with kc sp show ?thesis by (simp add: split_beta Let_def)
  next
    case (Suc k')
    with Cons.prems have "k' < length counts" by simp
    from Cons.IH [OF this] Suc kc show ?thesis by (simp add: split_beta Let_def)
  qed
qed

lemma sample_strata_total:
  assumes ok: "interval_ok rk" and d: "distinct (map fst valid)"
  shows "length (concat (fst (sample_strata rk T valid counts g)))
      = sum_list (map (\<lambda>kc. min T (length (stratum_rows valid (fst kc)))) counts)"
proof (induction counts arbitrary: g)
  case Nil
  then show ?case by simp
next
  case (Cons kc counts)
  obtain s c where kc: "kc = (s, c)" by (cases kc)
  note sp = select_stratum_props(2) [where G = "stratum_rows valid s" and T = T and g = g,
      OF ok distinct_stratum_rows [OF d]]
  show ?case
    using Cons.IH sp kc by (simp add: split_beta Let_def)
qed

lemma sample_strata_subset:
  assumes ok: "interval_ok rk" and d: "distinct (map fst valid)"
  shows "set (concat (fst (sample_strata rk T valid counts g)))
      \<subseteq> {x \<in> set valid. \<exists>s\<in>set (map fst counts). cell_eq (strata (snd x)) s}"
proof (induction counts arbitrary: g)
  case Nil
  then show ?case by simp
next
  case (Cons kc counts)
  obtain s c where kc: "kc = (s, c)" by (cases kc)
  note sp = select_stratum_props(4) [where G = "stratum_rows valid s" and T = T and g = g,
      OF ok distinct_stratum_rows [OF d]]
  have "set (stratum_rows valid s) \<subseteq> {x \<in> set valid. cell_eq (strata (snd x)) s}"
    by (auto simp: stratum_rows_def)
  with sp have 1: "set (fst (select_stratum rk T (stratum_rows valid s) g))
      \<subseteq> {x \<in> set valid. cell_eq (strata (snd x)) s}"
    by blast
  note 2 = Cons.IH [of "snd (select_stratum rk T (stratum_rows valid s) g)"]
  from 1 2 kc show ?case
    by (auto simp: split_beta Let_def)
qed

lemma cell_eq_same: "cell_eq c s \<Longrightarrow> cell_eq c s' \<Longrightarrow> s = s'"
  by (cases c; cases s; cases s') auto

lemma sample_strata_distinct:
  assumes ok: "interval_ok rk" and d: "distinct (map fst valid)"
  shows "distinct (map fst counts) \<Longrightarrow>
     distinct (map fst (concat (fst (sample_strata rk T valid counts g))))"
proof (induction counts arbitrary: g)
  case Nil
  then show ?case by simp
next
  case (Cons kc counts)
  obtain s c where kc: "kc = (s, c)" by (cases kc)
  let ?sel = "fst (select_stratum rk T (stratum_rows valid s) g)"
  let ?g' = "snd (select_stratum rk T (stratum_rows valid s) g)"
  let ?rest = "concat (fst (sample_strata rk T valid counts ?g'))"
  note sp = select_stratum_props [where G = "stratum_rows valid s" and T = T and g = g,
      OF ok distinct_stratum_rows [OF d]]
  from Cons.prems kc have ns: "s \<notin> set (map fst counts)" and dc: "distinct (map fst counts)"
    by simp_all
  have dr: "distinct (map fst ?rest)"
    by (rule Cons.IH [OF dc])
  have disj: "set (map fst ?sel) \<inter> set (map fst ?rest) = {}"
  proof (rule ccontr)
    assume "set (map fst ?sel) \<inter> set (map fst ?rest) \<noteq> {}"
    then obtain i where i1: "i \<in> fst ` set ?sel" and i2: "i \<in> fst ` set ?rest"
      unfolding set_map by blast
    from i1 obtain x where x: "x \<in> set ?sel" and ix: "i = fst x"
      by (rule imageE)
    from i2 obtain y where y: "y \<in> set ?rest" and iy: "i = fst y"
      by (rule imageE)
    from x sp(4) have "x \<in> set (stratum_rows valid s)"
      by (rule subsetD [rotated])
    then have xv: "x \<in> set valid" and xs: "cell_eq (strata (snd x)) s"
      by (simp_all add: stratum_rows_def split_beta)
    from y sample_strata_subset [OF ok d, of T counts ?g']
    have "y \<in> {x \<in> set valid. \<exists>s\<in>set (map fst counts). cell_eq (strata (snd x)) s}"
      by (rule subsetD [rotated])
    then obtain s' where yv: "y \<in> set valid" and s': "s' \<in> set (map fst counts)"
      and ys: "cell_eq (strata (snd y)) s'"
      by blast
    from d have "inj_on fst (set valid)"
      by (simp add: distinct_map)
    from inj_onD [OF this _ xv yv] ix iy have "x = y"
      by simp
    with xs ys have "s = s'"
      by (simp add: cell_eq_same)
    with ns s' show False by simp
  qed
  from sp(3) dr disj kc show ?case
    by (simp add: split_beta Let_def)
qed

lemma strata_column: "(\<lambda>(i, r). strata r) = (\<lambda>x. strata (snd x))"
  by (simp add: fun_eq_iff split_beta)

lemma cell_eq_iff: "cell_eq c s \<longleftrightarrow> c = s \<and> s \<noteq> None"
  by (cases c; cases s) auto

lemma stratum_rows_filter:
  "stratum_rows valid s = filter (\<lambda>x. strata (snd x) = s \<and> s \<noteq> None) valid"
  unfolding stratum_rows_def by (rule filter_cong) (auto simp: cell_eq_iff)

lemma mset_filter_disjoint:
  "(\<And>x. \<not> (A x \<and> B x)) \<Longrightarrow>
     mset (filter A xs) + mset (filter B xs) = mset (filter (\<lambda>x. A x \<or> B x) xs)"
  by (induction xs) auto

lemma groups_partition:
  "distinct ks \<Longrightarrow>
     mset (concat (map (\<lambda>s. filter (\<lambda>x. f x = s \<and> s \<noteq> None) xs) ks))
       = mset (filter (\<lambda>x. f x \<in> set ks \<and> f x \<noteq> None) xs)"
proof (induction ks)
  case Nil
  then show ?case by simp
next
  case (Cons k ks)
  then have k: "k \<notin> set ks" and d: "distinct ks" by simp_all
  have "mset (concat (map (\<lambda>s. filter (\<lambda>x. f x = s \<and> s \<noteq> None) xs) (k # ks)))
      = mset (filter (\<lambda>x. f x = k \<and> k \<noteq> None) xs)
        + mset (filter (\<lambda>x. f x \<in> set ks \<and> f x \<noteq> None) xs)"
    using Cons.IH [OF d] by simp
  also have "\<dots> = mset (filter (\<lambda>x. (f x = k \<and> k \<noteq> None) \<or> (f x \<in> set ks \<and> f x \<noteq> None)) xs)"
    by (rule mset_filter_disjoint) (use k in auto)
  also have "(\<lambda>x. (f x = k \<and> k \<noteq> None) \<or> (f x \<in> set ks \<and> f x \<noteq> None))
      = (\<lambda>x. f x \<in> set (k # ks) \<and> f x \<noteq> None)"
    by auto
  finally show ?case .
qed

lemma stratum_groups_partition:
  assumes "distinct keys" and "set keys = set (map (\<lambda>x. strata (snd x)) valid)"
  shows "mset (concat (map (stratum_rows valid) keys))
           = mset (filter (\<lambda>x. strata (snd x) \<noteq> None) valid)"
proof -
  have eq: "stratum_rows valid = (\<lambda>s. filter (\<lambda>x. strata (snd x) = s \<and> s \<noteq> None) valid)"
    by (rule ext) (rule stratum_rows_filter)
  have "mset (concat (map (stratum_rows valid) keys))
      = mset (filter (\<lambda>x. strata (snd x) \<in> set keys \<and> strata (snd x) \<noteq> None) valid)"
    unfolding eq by (rule groups_partition [OF assms(1)])
  also have "filter (\<lambda>x. strata (snd x) \<in> set keys \<and> strata (snd x) \<noteq> None) valid
      = filter (\<lambda>x. strata (snd x) \<noteq> None) valid"
    by (rule filter_cong) (auto simp: assms(2))
  finally show ?thesis .
qed

lemma stratum_group_unique:
  assumes "distinct keys" and "set keys = set (map (\<lambda>x. strata (snd x)) valid)"
    and "x \<in> set valid" and "strata (snd x) \<noteq> None"
  shows "\<exists>!k. k < length keys \<and> x \<in> set (stratum_rows valid (keys ! k))"
proof -
  from assms(2,3) have "strata (snd x) \<in> set keys" by auto
  then obtain k where k: "k < length keys" "keys ! k = strata (snd x)"
    by (auto simp: in_set_conv_nth)
  show ?thesis
  proof (rule ex1I [of _ k])
    from k assms(3,4) show "k < length keys \<and> x \<in> set (stratum_rows valid (keys ! k))"
      by (simp add: stratum_rows_filter)
  next
    fix k'
    assume "k' < length keys \<and> x \<in> set (stratum_rows valid (keys ! k'))"
    then have k': "k' < length keys" "keys ! k' = strata (snd x)"
      by (simp_all add: stratum_rows_filter)
    with k nth_eq_iff_index_eq [OF assms(1), of k' k] show "k' = k"
      by simp
  qed
qed

text \<open>
  C1. The strata are the distinct values of the stratum column, and the rows of each
  stratum are one group: a group is exactly the rows of the table that carry its
  stratum, in their order, every row with a stratum is in exactly one group, and the
  groups together are the rows with a stratum, each once. For every target \<open>T\<close> (in
  particular every \<open>T > 0\<close>), when the generator's draws stay in their range and the
  rows of the table have distinct indices: the selection has one part for each group,
  in the order of the groups; a group of at most \<open>T\<close> rows is selected whole; of a
  group of more than \<open>T\<close> rows exactly \<open>T\<close> rows are selected, all of them rows of
  the group and no row twice; the size of the whole selection is the sum over the
  groups of \<open>min T (size of the group)\<close>; and no row is selected twice.
\<close>

theorem stratified_sample_sizes:
  assumes "interval_ok rk" and "distinct (map fst valid)"
  shows "let keys = map fst (Counter (map (\<lambda>(i, r). strata r) valid));
             selection = fst (stratified_sample np rk seed T valid g0)
         in distinct keys
            \<and> set keys = set (map (\<lambda>(i, r). strata r) valid)
            \<and> length selection = length keys
            \<and> (\<forall>k<length keys.
                  (length (stratum_rows valid (keys ! k)) \<le> T \<longrightarrow>
                     selection ! k = stratum_rows valid (keys ! k))
                  \<and> (T < length (stratum_rows valid (keys ! k)) \<longrightarrow>
                       length (selection ! k) = T
                       \<and> distinct (map fst (selection ! k))
                       \<and> set (selection ! k) \<subseteq> set (stratum_rows valid (keys ! k))))
            \<and> length (concat selection)
                = sum_list (map (\<lambda>s. min T (length (stratum_rows valid s))) keys)
            \<and> distinct (map fst (concat selection))
            \<and> set (concat selection) \<subseteq> set valid
            \<and> (\<forall>s. stratum_rows valid s
                     = filter (\<lambda>x. strata (snd x) = s \<and> s \<noteq> None) valid)
            \<and> (\<forall>x\<in>set valid. strata (snd x) \<noteq> None \<longrightarrow>
                  (\<exists>!k. k < length keys \<and> x \<in> set (stratum_rows valid (keys ! k))))
            \<and> mset (concat (map (stratum_rows valid) keys))
                = mset (filter (\<lambda>x. strata (snd x) \<noteq> None) valid)"
proof -
  let ?counts = "Counter (map (\<lambda>(i, r). strata r) valid)"
  let ?keys = "map fst ?counts"
  let ?sel = "fst (sample_strata rk T valid ?counts (np seed))"
  have sel: "fst (stratified_sample np rk seed T valid g0) = ?sel"
    by (simp add: stratified_sample_def)
  have 1: "distinct ?keys"
    by (rule Counter_keys)
  have 2: "set ?keys = set (map (\<lambda>(i, r). strata r) valid)"
    by (rule Counter_keys)
  have 3: "length ?sel = length ?keys"
    by (simp add: sample_strata_length)
  have 4: "(length (stratum_rows valid (?keys ! k)) \<le> T \<longrightarrow>
                     ?sel ! k = stratum_rows valid (?keys ! k))
                  \<and> (T < length (stratum_rows valid (?keys ! k)) \<longrightarrow>
                       length (?sel ! k) = T
                       \<and> distinct (map fst (?sel ! k))
                       \<and> set (?sel ! k) \<subseteq> set (stratum_rows valid (?keys ! k)))"
    if "k < length ?keys" for k
  proof -
    from that have k: "k < length ?counts" by simp
    then have key: "?keys ! k = fst (?counts ! k)" by simp
    from sample_strata_nth [OF assms k, of T "np seed"] show ?thesis
      unfolding key by auto
  qed
  have "map (\<lambda>kc. min T (length (stratum_rows valid (fst kc)))) ?counts
      = map (\<lambda>s. min T (length (stratum_rows valid s))) ?keys"
    by (simp add: comp_def)
  with sample_strata_total [OF assms, of T ?counts "np seed"]
  have 5: "length (concat ?sel) = sum_list (map (\<lambda>s. min T (length (stratum_rows valid s))) ?keys)"
    by simp
  have 6: "distinct (map fst (concat ?sel))"
    by (rule sample_strata_distinct [OF assms 1])
  have 7: "set (concat ?sel) \<subseteq> set valid"
    using sample_strata_subset [OF assms, of T ?counts "np seed"] by blast
  from 2 have keys_set: "set ?keys = set (map (\<lambda>x. strata (snd x)) valid)"
    by (simp only: strata_column)
  have 8: "\<forall>s. stratum_rows valid s = filter (\<lambda>x. strata (snd x) = s \<and> s \<noteq> None) valid"
    by (intro allI stratum_rows_filter)
  have 9: "\<forall>x\<in>set valid. strata (snd x) \<noteq> None \<longrightarrow>
                  (\<exists>!k. k < length ?keys \<and> x \<in> set (stratum_rows valid (?keys ! k)))"
    using stratum_group_unique [OF 1 keys_set] by blast
  have 10: "mset (concat (map (stratum_rows valid) ?keys))
                = mset (filter (\<lambda>x. strata (snd x) \<noteq> None) valid)"
    by (rule stratum_groups_partition [OF 1 keys_set])
  from 1 2 3 4 5 6 7 8 9 10 show ?thesis
    unfolding Let_def sel by blast
qed

lemma example_interval_ok: "interval_ok example_interval"
  by (simp add: interval_ok_def example_interval_def)

lemma example_valid_indices: "map fst example_valid = [0, 1, 2, 5]"
  by code_simp

theorem stratified_sample_sizes_witness:
  "map (map fst) (fst (stratified_sample example_seed example_interval RANDOM_SEED 2 example_valid 0))
     = [[2, 1], [5]]
   \<and> map (\<lambda>s. length (stratum_rows example_valid s))
        (map fst (Counter (map (\<lambda>(i, r). strata r) example_valid))) = [3, 1]
   \<and> length (concat (fst (stratified_sample example_seed example_interval RANDOM_SEED 2
        example_valid 0))) = 3
   \<and> distinct (map fst (concat (fst (stratified_sample example_seed example_interval RANDOM_SEED 2
        example_valid 0))))
   \<and> map (map fst) (map (stratum_rows example_valid)
        (map fst (Counter (map (\<lambda>(i, r). strata r) example_valid)))) = [[0, 1, 2], [5]]"
proof -
  have d: "distinct (map fst example_valid)"
    by (simp add: example_valid_indices)
  have p: "map (map fst) (map (stratum_rows example_valid)
        (map fst (Counter (map (\<lambda>(i, r). strata r) example_valid)))) = [[0, 1, 2], [5]]"
    by code_simp
  have e: "map (map fst) (fst (stratified_sample example_seed example_interval RANDOM_SEED 2
      example_valid 0)) = [[2, 1], [5]]"
    by code_simp
  have g: "map (\<lambda>s. length (stratum_rows example_valid s))
        (map fst (Counter (map (\<lambda>(i, r). strata r) example_valid))) = [3, 1]"
    by code_simp
  have s: "sum_list (map (\<lambda>s. min 2 (length (stratum_rows example_valid s)))
        (map fst (Counter (map (\<lambda>(i, r). strata r) example_valid)))) = 3"
    by code_simp
  note t = stratified_sample_sizes [OF example_interval_ok d,
      of example_seed RANDOM_SEED 2 0, unfolded Let_def]
  note t5 = t [THEN conjunct2, THEN conjunct2, THEN conjunct2, THEN conjunct2, THEN conjunct1]
  note t6 = t [THEN conjunct2, THEN conjunct2, THEN conjunct2, THEN conjunct2, THEN conjunct2,
      THEN conjunct1]
  from t5 have l: "length (concat (fst (stratified_sample example_seed example_interval RANDOM_SEED 2
        example_valid 0))) = 3"
    by (simp only: s)
  from t6 have c: "distinct (map fst (concat (fst (stratified_sample example_seed example_interval
        RANDOM_SEED 2 example_valid 0))))" .
  from e g l c p show ?thesis by simp
qed

text \<open>
  C2. The selection is a function of the table, the target and the seed alone: line 117
  sets the state of the generator from the seed, so the state the generator had before
  has no influence, neither on the sampler nor on anything the script computes, and two
  ways of seeding that give the same state for the seed give the same selection.
\<close>

theorem stratified_sample_deterministic:
  "stratified_sample np rk seed T valid g1 = stratified_sample np rk seed T valid g2
   \<and> main np rk g1 catalog segments = main np rk g2 catalog segments
   \<and> (np seed = np' seed \<longrightarrow>
        stratified_sample np rk seed T valid g1 = stratified_sample np' rk seed T valid g2)"
proof (intro conjI impI)
  have a: "stratified_sample np rk s T' v g1 = stratified_sample np rk s T' v g2" for s T' v
    by (simp add: stratified_sample_def)
  show "stratified_sample np rk seed T valid g1 = stratified_sample np rk seed T valid g2"
    by (rule a)
  show "main np rk g1 catalog segments = main np rk g2 catalog segments"
    unfolding main_def a ..
next
  assume "np seed = np' seed"
  then show "stratified_sample np rk seed T valid g1 = stratified_sample np' rk seed T valid g2"
    by (simp add: stratified_sample_def)
qed

theorem stratified_sample_deterministic_witness:
  "map (map fst) (fst (stratified_sample example_seed example_interval RANDOM_SEED 2 example_valid 0))
     = [[2, 1], [5]]
   \<and> map (map fst) (fst (stratified_sample (\<lambda>seed. seed + 64 - 64) example_interval RANDOM_SEED 2
        example_valid 17)) = [[2, 1], [5]]"
proof -
  have s: "example_seed RANDOM_SEED = (\<lambda>seed. seed + 64 - 64) RANDOM_SEED"
    by (simp add: example_seed_def)
  have e: "map (map fst) (fst (stratified_sample example_seed example_interval RANDOM_SEED 2
      example_valid 0)) = [[2, 1], [5]]"
    by code_simp
  from stratified_sample_deterministic [of example_seed example_interval RANDOM_SEED 2
      example_valid 0 17 _ _ "\<lambda>seed. seed + 64 - 64", THEN conjunct2, THEN conjunct2,
      THEN mp, OF s] e
  show ?thesis by simp
qed

section \<open>Properties of the join and of the final outputs\<close>

lemma derive_catalog_IDs: "derive_catalog catalog = Inr entries \<Longrightarrow> map ID entries = map ID catalog"
proof (induction catalog arbitrary: entries)
  case Nil
  then show ?case by simp
next
  case (Cons row rows)
  from Cons.prems obtain secs es
    where es: "derive_catalog rows = Inr es"
      and entries: "entries = derive_entry row secs # es"
    by (auto split: sum.splits)
  from Cons.IH [OF es] entries show ?case by (simp add: derive_entry_def)
qed

lemma id_to_strata_of_SomeD: "id_to_strata_of entries x = Some s \<Longrightarrow> x \<in> set (map ID entries)"
proof -
  assume "id_to_strata_of entries x = Some s"
  then have "(x, s) \<in> set (rev (map (\<lambda>e. (ID e, cat_strata e)) entries))"
    unfolding id_to_strata_of_def by (rule map_of_SomeD)
  then show ?thesis by auto
qed

lemma id_to_strata_of_distinct:
  assumes "distinct (map ID entries)" and "e \<in> set entries"
  shows "id_to_strata_of entries (ID e) = Some (cat_strata e)"
proof -
  let ?l = "rev (map (\<lambda>e. (ID e, cat_strata e)) entries)"
  have "map fst ?l = rev (map ID entries)"
    by (simp add: rev_map comp_def)
  with assms(1) have "distinct (map fst ?l)" by (simp only: distinct_rev)
  moreover from assms(2) have "(ID e, cat_strata e) \<in> set ?l" by auto
  ultimately show ?thesis
    unfolding id_to_strata_of_def by (rule map_of_is_SomeI)
qed

lemma id_to_metadata_of_Inr:
  assumes "id_to_metadata_of entries = Inr m"
  shows "distinct (map ID entries)"
    and "e \<in> set entries \<Longrightarrow>
           m (ID e) = Some \<lparr>md_AGE = AGE e, md_duration_category = cat_duration_category e,
                            md_content_type = cat_content_type e\<rparr>"
proof -
  from assms show d: "distinct (map ID entries)"
    by (simp add: id_to_metadata_of_def split: if_splits)
  let ?l = "map (\<lambda>e. (ID e, \<lparr>md_AGE = AGE e, md_duration_category = cat_duration_category e,
                            md_content_type = cat_content_type e\<rparr>)) entries"
  from assms d have m: "m = map_of ?l"
    by (simp add: id_to_metadata_of_def)
  have "map fst ?l = map ID entries" by (simp add: comp_def)
  with d have dl: "distinct (map fst ?l)" by (simp only:)
  assume "e \<in> set entries"
  then have "(ID e, \<lparr>md_AGE = AGE e, md_duration_category = cat_duration_category e,
                            md_content_type = cat_content_type e\<rparr>) \<in> set ?l" by auto
  with dl show "m (ID e) = Some \<lparr>md_AGE = AGE e, md_duration_category = cat_duration_category e,
                            md_content_type = cat_content_type e\<rparr>"
    unfolding m by (rule map_of_is_SomeI)
qed

lemma join_dropna_mem:
  "(i, r) \<in> set (dropna_strata (join_strata m fr)) \<Longrightarrow>
     \<exists>r0. (i, r0) \<in> set fr \<and> file_name r = file_name r0 \<and> url r = url r0
        \<and> audio_duration r = audio_duration r0
        \<and> inference_transcript r = inference_transcript r0
        \<and> original_id r = extract_original_id (file_name r0)
        \<and> strata r = m (extract_original_id (file_name r0)) \<and> strata r \<noteq> None"
  by (auto simp: dropna_strata_def join_strata_def)

lemma map_fst_join_strata: "map fst (join_strata m fr) = map fst fr"
  by (simp add: join_strata_def split_beta comp_def)

lemma distinct_dropna_join: "distinct (map fst fr) \<Longrightarrow> distinct (map fst (dropna_strata (join_strata m fr)))"
  by (simp add: dropna_strata_def distinct_map_filter map_fst_join_strata)

lemma astype_float_indices: "astype_float fr = Inr rs \<Longrightarrow> map fst rs = map fst fr"
proof (induction fr arbitrary: rs)
  case Nil
  then show ?case by simp
next
  case (Cons x fr)
  obtain i r where x: "x = (i, r)" by (cases x)
  from Cons.prems x obtain f rs' where rs': "astype_float fr = Inr rs'"
    and rs: "rs = (i, \<lparr>file_name = file_name r, url = url r, audio_duration = f,
                         inference_transcript = inference_transcript r\<rparr>) # rs'"
    by (cases "audio_duration r") (auto split: sum.splits)
  from Cons.IH [OF rs'] x rs show ?case by simp
qed

lemma valid_segments_of_distinct:
  assumes "valid_segments_of L H rows = Inr v"
  shows "distinct (map fst v)"
proof -
  from assms obtain rs where rs: "astype_float (read_frame rows) = Inr rs"
    and v: "v = filter_duration L H rs"
    by (auto simp: valid_segments_of_def split: sum.splits)
  from astype_float_indices [OF rs] have "distinct (map fst rs)"
    by (simp add: map_fst_read_frame)
  then show ?thesis
    by (simp add: v filter_duration_def distinct_map_filter)
qed

lemma main_InrD:
  assumes "main np rk g0 catalog segments = Inr (out, g)"
  obtains duration_filtered catalog_df id_to_metadata sel where
    "valid_segments_of MIN_SEGMENT_DURATION MAX_SEGMENT_DURATION (seg_rows segments)
       = Inr duration_filtered"
    "derive_catalog catalog = Inr catalog_df"
    "id_to_metadata_of catalog_df = Inr id_to_metadata"
    "sel = fst (stratified_sample np rk RANDOM_SEED SEGMENTS_PER_STRATUM
       (dropna_strata (join_strata (id_to_strata_of catalog_df) duration_filtered)) g0)"
    "sel \<noteq> []"
    "benchmark_df out = add_metadata id_to_metadata (concat sel)"
    "formatted_output (has_transcript segments) (benchmark_df out) = Inr (formatted_rows out)"
    "strata_mapping_df out =
       map (\<lambda>(i, r). (i, file_name r, original_id r, strata r, audio_duration r))
         (dropna_strata (join_strata (id_to_strata_of catalog_df) duration_filtered))"
    "benchmark_json out =
       map (\<lambda>(i, r). benchmark_json_entry (has_transcript segments) r) (benchmark_df out)"
    "full_audio_strata_df out = catalog_df"
proof -
  from assms obtain duration_filtered
    where 1: "valid_segments_of MIN_SEGMENT_DURATION MAX_SEGMENT_DURATION (seg_rows segments)
       = Inr duration_filtered"
    by (cases "valid_segments_of MIN_SEGMENT_DURATION MAX_SEGMENT_DURATION (seg_rows segments)")
      (simp_all add: main_def)
  from assms 1 obtain catalog_df where 2: "derive_catalog catalog = Inr catalog_df"
    by (cases "derive_catalog catalog") (simp_all add: main_def)
  from assms 1 2 obtain id_to_metadata where 3: "id_to_metadata_of catalog_df = Inr id_to_metadata"
    by (cases "id_to_metadata_of catalog_df") (simp_all add: main_def)
  let ?valid = "dropna_strata (join_strata (id_to_strata_of catalog_df) duration_filtered)"
  let ?ss = "stratified_sample np rk RANDOM_SEED SEGMENTS_PER_STRATUM ?valid g0"
  let ?bm = "add_metadata id_to_metadata (concat (fst ?ss))"
  from assms 1 2 3 have 5: "fst ?ss \<noteq> []"
    by (auto simp: main_def Let_def split_beta pd_concat_def split: if_splits)
  with assms 1 2 3 obtain formatted
    where 7: "formatted_output (has_transcript segments) ?bm = Inr formatted"
    by (cases "formatted_output (has_transcript segments) ?bm")
      (simp_all add: main_def Let_def split_beta pd_concat_def)
  from assms 1 2 3 5 7 have out: "out = \<lparr>benchmark_df = ?bm,
                        formatted_rows = formatted,
                        strata_mapping_df =
                          map (\<lambda>(i, r). (i, file_name r, original_id r, strata r, audio_duration r))
                            ?valid,
                        full_audio_strata_df = catalog_df,
                        benchmark_json =
                          map (\<lambda>(i, r). benchmark_json_entry (has_transcript segments) r) ?bm\<rparr>"
    by (simp add: main_def Let_def split_beta pd_concat_def)
  show ?thesis
  proof (rule that [OF 1 2 3 refl 5])
    show "benchmark_df out = ?bm" by (simp add: out)
    show "formatted_output (has_transcript segments) (benchmark_df out) = Inr (formatted_rows out)"
      by (simp add: out 7)
    show "strata_mapping_df out =
       map (\<lambda>(i, r). (i, file_name r, original_id r, strata r, audio_duration r)) ?valid"
      by (simp add: out)
    show "benchmark_json out =
       map (\<lambda>(i, r). benchmark_json_entry (has_transcript segments) r) (benchmark_df out)"
      by (simp add: out)
    show "full_audio_strata_df out = catalog_df" by (simp add: out)
  qed
qed

lemma derive_catalog_mem:
  "derive_catalog catalog = Inr entries \<Longrightarrow> e \<in> set entries \<Longrightarrow>
     \<exists>c secs. c \<in> set catalog \<and> parse_duration (Original_Full_Audio_Duration c) = Inr secs
        \<and> e = derive_entry c secs"
proof (induction catalog arbitrary: entries)
  case Nil
  then show ?case by simp
next
  case (Cons row rows)
  from Cons.prems(1) obtain secs es
    where p: "parse_duration (Original_Full_Audio_Duration row) = Inr secs"
      and es: "derive_catalog rows = Inr es"
      and entries: "entries = derive_entry row secs # es"
    by (auto split: sum.splits)
  show ?case
  proof (cases "e = derive_entry row secs")
    case True
    with p show ?thesis by auto
  next
    case False
    with Cons.prems(2) entries have "e \<in> set es" by simp
    from Cons.IH [OF es this] show ?thesis by auto
  qed
qed

lemma stratified_sample_subset:
  assumes "interval_ok rk" and "distinct (map fst valid)"
  shows "set (concat (fst (stratified_sample np rk seed T valid g0))) \<subseteq> set valid"
proof -
  have "fst (stratified_sample np rk seed T valid g0)
      = fst (sample_strata rk T valid (Counter (map (\<lambda>(i, r). strata r) valid)) (np seed))"
    by (simp add: stratified_sample_def)
  with sample_strata_subset [OF assms, of T "Counter (map (\<lambda>(i, r). strata r) valid)" "np seed"]
  show ?thesis by auto
qed

lemma add_metadata_mem:
  "(i, b) \<in> set (add_metadata m sel) \<Longrightarrow>
     \<exists>r. (i, r) \<in> set sel \<and> file_name b = file_name r \<and> url b = url r
        \<and> audio_duration b = audio_duration r
        \<and> inference_transcript b = inference_transcript r
        \<and> original_id b = original_id r \<and> strata b = strata r
        \<and> age_group b = (case m (original_id r) of None \<Rightarrow> ''Unknown'' | Some md \<Rightarrow> md_AGE md)
        \<and> bm_duration_category b
            = (case m (original_id r) of None \<Rightarrow> ''Unknown'' | Some md \<Rightarrow> md_duration_category md)
        \<and> bm_content_type b
            = (case m (original_id r) of None \<Rightarrow> ''Unknown'' | Some md \<Rightarrow> md_content_type md)"
  by (auto simp: add_metadata_def)

lemma valid_row_resolved:
  assumes v: "valid_segments_of L H rows = Inr duration_filtered"
    and c: "derive_catalog catalog = Inr catalog_df"
    and mem: "(i, r) \<in> set (dropna_strata (join_strata (id_to_strata_of catalog_df) duration_filtered))"
  shows "i < length rows" and "file_name r = file_name (rows ! i)"
    and "original_id r = extract_original_id (file_name r)"
    and "original_id r \<in> set (map ID catalog)"
    and "\<exists>s. strata r = Some s \<and> id_to_strata_of catalog_df (original_id r) = Some s"
proof -
  from join_dropna_mem [OF mem] obtain r0 where r0: "(i, r0) \<in> set duration_filtered"
    and f: "file_name r = file_name r0"
    and o: "original_id r = extract_original_id (file_name r0)"
    and s: "strata r = id_to_strata_of catalog_df (extract_original_id (file_name r0))"
    and n: "strata r \<noteq> None"
    by blast
  from r0 valid_segments_of_mem [OF v, of i r0]
  show i: "i < length rows" by simp
  from r0 valid_segments_of_mem [OF v, of i r0] f
  show "file_name r = file_name (rows ! i)" by simp
  from o f show "original_id r = extract_original_id (file_name r)" by simp
  from n obtain st where st: "strata r = Some st" by (cases "strata r") auto
  with s o have l: "id_to_strata_of catalog_df (original_id r) = Some st" by simp
  from id_to_strata_of_SomeD [OF l] derive_catalog_IDs [OF c]
  show "original_id r \<in> set (map ID catalog)" by simp
  from st l show "\<exists>s. strata r = Some s \<and> id_to_strata_of catalog_df (original_id r) = Some s"
    by simp
qed

lemma benchmark_row_resolved:
  assumes ok: "interval_ok rk"
    and m: "main np rk g0 catalog segments = Inr (out, g)"
    and mem: "(i, b) \<in> set (benchmark_df out)"
  shows "i < length (seg_rows segments)"
    and "file_name b = file_name (seg_rows segments ! i)"
    and "original_id b = extract_original_id (file_name b)"
    and "\<exists>c secs. c \<in> set catalog \<and> ID c = original_id b
           \<and> parse_duration (Original_Full_Audio_Duration c) = Inr secs
           \<and> strata b = Some (strata_key (AGE c) (duration_category secs)
                                 (extract_content_type (Filename c)))
           \<and> age_group b = AGE c
           \<and> bm_duration_category b = duration_category secs
           \<and> bm_content_type b = extract_content_type (Filename c)"
proof -
  from m obtain duration_filtered catalog_df id_to_metadata sel where
    v: "valid_segments_of MIN_SEGMENT_DURATION MAX_SEGMENT_DURATION (seg_rows segments)
       = Inr duration_filtered"
    and c: "derive_catalog catalog = Inr catalog_df"
    and md: "id_to_metadata_of catalog_df = Inr id_to_metadata"
    and sel: "sel = fst (stratified_sample np rk RANDOM_SEED SEGMENTS_PER_STRATUM
       (dropna_strata (join_strata (id_to_strata_of catalog_df) duration_filtered)) g0)"
    and bm: "benchmark_df out = add_metadata id_to_metadata (concat sel)"
    by (rule main_InrD)
  let ?valid = "dropna_strata (join_strata (id_to_strata_of catalog_df) duration_filtered)"
  have dv: "distinct (map fst ?valid)"
    by (rule distinct_dropna_join [OF valid_segments_of_distinct [OF v]])
  from mem bm add_metadata_mem [of i b id_to_metadata "concat sel"]
  obtain r where r: "(i, r) \<in> set (concat sel)" and f: "file_name b = file_name r"
    and o: "original_id b = original_id r" and s: "strata b = strata r"
    and a: "age_group b = (case id_to_metadata (original_id r) of
                             None \<Rightarrow> ''Unknown'' | Some md \<Rightarrow> md_AGE md)"
    and dc: "bm_duration_category b = (case id_to_metadata (original_id r) of
                             None \<Rightarrow> ''Unknown'' | Some md \<Rightarrow> md_duration_category md)"
    and ct: "bm_content_type b = (case id_to_metadata (original_id r) of
                             None \<Rightarrow> ''Unknown'' | Some md \<Rightarrow> md_content_type md)"
    by auto
  from r stratified_sample_subset [OF ok dv, of np RANDOM_SEED SEGMENTS_PER_STRATUM g0]
  have rv: "(i, r) \<in> set ?valid"
    unfolding sel by blast
  note vr = valid_row_resolved [OF v c rv]
  from vr(1) show "i < length (seg_rows segments)" .
  from vr(2) f show "file_name b = file_name (seg_rows segments ! i)" by simp
  from vr(3) f o show "original_id b = extract_original_id (file_name b)" by simp
  from vr(4) derive_catalog_IDs [OF c] have "original_id r \<in> set (map ID catalog_df)" by simp
  then obtain e where e: "e \<in> set catalog_df" and ide: "ID e = original_id r" by auto
  from derive_catalog_mem [OF c e] obtain row secs where row: "row \<in> set catalog"
    and p: "parse_duration (Original_Full_Audio_Duration row) = Inr secs"
    and ee: "e = derive_entry row secs"
    by blast
  note d = id_to_metadata_of_Inr(1) [OF md]
  from id_to_strata_of_distinct [OF d e] ide vr(5)
  have st: "strata r = Some (cat_strata e)" by auto
  from id_to_metadata_of_Inr(2) [OF md e] ide
  have mm: "id_to_metadata (original_id r)
      = Some \<lparr>md_AGE = AGE e, md_duration_category = cat_duration_category e,
               md_content_type = cat_content_type e\<rparr>" by simp
  have "ID row = original_id b"
    using ide ee o by (simp add: derive_entry_def)
  moreover have "strata b = Some (strata_key (AGE row) (duration_category secs)
                                 (extract_content_type (Filename row)))"
    using s st ee by (simp add: derive_entry_def)
  moreover have "age_group b = AGE row" "bm_duration_category b = duration_category secs"
    "bm_content_type b = extract_content_type (Filename row)"
    using a dc ct mm ee by (simp_all add: derive_entry_def)
  ultimately show "\<exists>c secs. c \<in> set catalog \<and> ID c = original_id b
           \<and> parse_duration (Original_Full_Audio_Duration c) = Inr secs
           \<and> strata b = Some (strata_key (AGE c) (duration_category secs)
                                 (extract_content_type (Filename c)))
           \<and> age_group b = AGE c
           \<and> bm_duration_category b = duration_category secs
           \<and> bm_content_type b = extract_content_type (Filename c)"
    using row p by blast
qed

lemma main_distinct_IDs:
  assumes "main np rk g0 catalog segments = Inr (out, g)"
  shows "distinct (map ID catalog)"
proof -
  from assms obtain catalog_df id_to_metadata where
    c: "derive_catalog catalog = Inr catalog_df"
    and md: "id_to_metadata_of catalog_df = Inr id_to_metadata"
    by (rule main_InrD)
  from id_to_metadata_of_Inr(1) [OF md] derive_catalog_IDs [OF c] show ?thesis by simp
qed












lemma main_InrI:
  assumes v: "valid_segments_of MIN_SEGMENT_DURATION MAX_SEGMENT_DURATION (seg_rows segments)
       = Inr duration_filtered"
    and c: "derive_catalog catalog = Inr catalog_df"
    and m: "id_to_metadata_of catalog_df = Inr id_to_metadata"
    and s: "fst (stratified_sample np rk RANDOM_SEED SEGMENTS_PER_STRATUM
       (dropna_strata (join_strata (id_to_strata_of catalog_df) duration_filtered)) g0) \<noteq> []"
  shows "\<exists>out g. main np rk g0 catalog segments = Inr (out, g)
     \<and> benchmark_df out = add_metadata id_to_metadata
         (concat (fst (stratified_sample np rk RANDOM_SEED SEGMENTS_PER_STRATUM
            (dropna_strata (join_strata (id_to_strata_of catalog_df) duration_filtered)) g0)))
     \<and> strata_mapping_df out =
         map (\<lambda>(i, r). (i, file_name r, original_id r, strata r, audio_duration r))
           (dropna_strata (join_strata (id_to_strata_of catalog_df) duration_filtered))"
  using s
  by (simp add: main_def v c m Let_def split_beta pd_concat_def formatted_output_eq)

lemma example_main:
  "\<exists>out g. main example_seed example_interval 0 example_catalog example_segments = Inr (out, g)
     \<and> map (\<lambda>(i, b). (i, original_id b, age_group b, bm_duration_category b, bm_content_type b,
                        strata b)) (benchmark_df out)
       = [(0, ''STT_GR_0001'', ''Adult'', ''medium'', ''Q&A'', Some ''Adult__medium__Q&A''),
          (1, ''STT_GR_0001'', ''Adult'', ''medium'', ''Q&A'', Some ''Adult__medium__Q&A''),
          (2, ''STT_GR_0001'', ''Adult'', ''medium'', ''Q&A'', Some ''Adult__medium__Q&A''),
          (5, ''STT_GR_0002'', ''Senior'', ''short'', ''Prayer'', Some ''Senior__short__Prayer'')]
     \<and> map fst (strata_mapping_df out) = [0, 1, 2, 5]"
proof -
  let ?df = "[(0, example_row ''STT_GR_0001_0001_0_to_5500'' (Finite 5.5) (Some ''om'')),
        (1, example_row ''STT_GR_0001_0002_5500_to_6000'' (Finite 0.5) None),
        (2, example_row ''STT_GR_0001_0003_6000_to_36000'' (Finite 30.0) (Some ''ah'')),
        (5, example_row ''STT_GR_0002_0003_30500_to_40000'' (Finite 9.5) (Some ''hung'')),
        (6, example_row ''STT_GR_0009_0001_0_to_7000'' (Finite 7.0) None),
        (7, example_row ''clip_7.wav'' (Finite 3.0) None)]"
  let ?cat = "[derive_entry (example_catalog ! 0) 360, derive_entry (example_catalog ! 1) 0]"
  let ?md = "map_of (map (\<lambda>e. (ID e, \<lparr>md_AGE = AGE e,
                                         md_duration_category = cat_duration_category e,
                                         md_content_type = cat_content_type e\<rparr>)) ?cat)"
  have "valid_segments_of MIN_SEGMENT_DURATION MAX_SEGMENT_DURATION example_rows = Inr ?df"
    by code_simp
  then have v: "valid_segments_of MIN_SEGMENT_DURATION MAX_SEGMENT_DURATION
      (seg_rows example_segments) = Inr ?df"
    by (simp add: example_segments_def)
  have c: "derive_catalog example_catalog = Inr ?cat"
    by code_simp
  have m: "id_to_metadata_of ?cat = Inr ?md"
    by (simp add: id_to_metadata_of_def derive_entry_def example_catalog_def)
  have j: "dropna_strata (join_strata (id_to_strata_of ?cat) ?df) = example_valid"
    by code_simp
  have e: "map (map fst) (fst (stratified_sample example_seed example_interval RANDOM_SEED
      SEGMENTS_PER_STRATUM example_valid 0)) = [[0, 1, 2], [5]]"
    by code_simp
  then have ne: "fst (stratified_sample example_seed example_interval RANDOM_SEED
      SEGMENTS_PER_STRATUM (dropna_strata (join_strata (id_to_strata_of ?cat) ?df)) 0) \<noteq> []"
    unfolding j by auto
  have b: "map (\<lambda>(i, b). (i, original_id b, age_group b, bm_duration_category b, bm_content_type b,
                        strata b))
      (add_metadata ?md (concat (fst (stratified_sample example_seed example_interval RANDOM_SEED
           SEGMENTS_PER_STRATUM example_valid 0))))
       = [(0, ''STT_GR_0001'', ''Adult'', ''medium'', ''Q&A'', Some ''Adult__medium__Q&A''),
          (1, ''STT_GR_0001'', ''Adult'', ''medium'', ''Q&A'', Some ''Adult__medium__Q&A''),
          (2, ''STT_GR_0001'', ''Adult'', ''medium'', ''Q&A'', Some ''Adult__medium__Q&A''),
          (5, ''STT_GR_0002'', ''Senior'', ''short'', ''Prayer'', Some ''Senior__short__Prayer'')]"
    by code_simp
  have sm: "map fst (map (\<lambda>(i, r). (i, file_name r, original_id r, strata r, audio_duration r))
       example_valid) = [0, 1, 2, 5]"
    by code_simp
  from main_InrI [OF v c m ne] obtain out g
    where "main example_seed example_interval 0 example_catalog example_segments = Inr (out, g)"
      and "benchmark_df out = add_metadata ?md
         (concat (fst (stratified_sample example_seed example_interval RANDOM_SEED
            SEGMENTS_PER_STRATUM (dropna_strata (join_strata (id_to_strata_of ?cat) ?df)) 0)))"
      and "strata_mapping_df out =
         map (\<lambda>(i, r). (i, file_name r, original_id r, strata r, audio_duration r))
           (dropna_strata (join_strata (id_to_strata_of ?cat) ?df))"
    by blast
  with b sm show ?thesis
    unfolding j by (intro exI [of _ out] exI [of _ g]) simp
qed



text \<open>
  C8. In every run of the script that returns, the three outputs have one row for each
  row of the selection, in the same order, and for every such row: exactly one catalog
  entry has the row's parent identifier; the row's stratum is the stratum key of that
  entry and its age group, duration category and content type are those of that entry,
  so that neither the missing stratum nor the default \<^verbatim>\<open>Unknown\<close> of lines 140 to 142
  occurs; the row of the table for upload carries the same file name, and the JSON entry
  is built from the same row.
\<close>

theorem output_rows_resolved:
  assumes "interval_ok rk" and "main np rk g0 catalog segments = Inr (out, g)"
  shows "length (formatted_rows out) = length (benchmark_df out)
     \<and> length (benchmark_json out) = length (benchmark_df out)
     \<and> (\<forall>k<length (benchmark_df out).
          let b = snd (benchmark_df out ! k)
          in (\<exists>!c. c \<in> set catalog \<and> ID c = original_id b)
             \<and> (\<exists>c secs. c \<in> set catalog \<and> ID c = original_id b
                   \<and> parse_duration (Original_Full_Audio_Duration c) = Inr secs
                   \<and> strata b = Some (strata_key (AGE c) (duration_category secs)
                                         (extract_content_type (Filename c)))
                   \<and> age_group b = AGE c
                   \<and> bm_duration_category b = duration_category secs
                   \<and> bm_content_type b = extract_content_type (Filename c))
             \<and> original_id b = extract_original_id (file_name b)
             \<and> map_of (formatted_rows out ! k) ''file_name'' = Some (StrV (file_name b))
             \<and> benchmark_json out ! k = benchmark_json_entry (has_transcript segments) b)"
proof -
  let ?df = "benchmark_df out"
  from assms(2) have fo: "formatted_output (has_transcript segments) ?df = Inr (formatted_rows out)"
    by (rule main_InrD)
  from assms(2) have js: "benchmark_json out =
       map (\<lambda>(i, r). benchmark_json_entry (has_transcript segments) r) ?df"
    by (rule main_InrD)
  let ?f = "\<lambda>((i, r), n).
            [(''file_name'', StrV (file_name r)),
             (''url'', StrV (url r)),
             (''inference_transcript'',
                if has_transcript segments then text_cell (inference_transcript r) else StrV ''''),
             (''audio_duration'', FloatV (audio_duration r)),
             (''group_id'', IntV 33),
             (''state'', StrV ''transcribing''),
             (''id'', IntV (int n))]"
  from fo formatted_output_eq [of "has_transcript segments" ?df]
  have fr: "formatted_rows out = map ?f (zip ?df [2159570 ..< 2159570 + length ?df])"
    by simp
  have 1: "length (formatted_rows out) = length ?df"
    by (simp add: fr)
  have 2: "length (benchmark_json out) = length ?df"
    by (simp add: js)
  have 3: "(\<exists>!c. c \<in> set catalog \<and> ID c = original_id (snd (?df ! k)))
             \<and> (\<exists>c secs. c \<in> set catalog \<and> ID c = original_id (snd (?df ! k))
                   \<and> parse_duration (Original_Full_Audio_Duration c) = Inr secs
                   \<and> strata (snd (?df ! k)) = Some (strata_key (AGE c) (duration_category secs)
                                         (extract_content_type (Filename c)))
                   \<and> age_group (snd (?df ! k)) = AGE c
                   \<and> bm_duration_category (snd (?df ! k)) = duration_category secs
                   \<and> bm_content_type (snd (?df ! k)) = extract_content_type (Filename c))
             \<and> original_id (snd (?df ! k)) = extract_original_id (file_name (snd (?df ! k)))
             \<and> map_of (formatted_rows out ! k) ''file_name'' = Some (StrV (file_name (snd (?df ! k))))
             \<and> benchmark_json out ! k
                 = benchmark_json_entry (has_transcript segments) (snd (?df ! k))"
    if k: "k < length ?df" for k
  proof -
    from k have "(fst (?df ! k), snd (?df ! k)) \<in> set ?df" by simp
    note br = benchmark_row_resolved [OF assms this]
    from br(4) obtain c where c: "c \<in> set catalog" "ID c = original_id (snd (?df ! k))"
      by blast
    from main_distinct_IDs [OF assms(2)] have inj: "inj_on ID (set catalog)"
      by (simp add: distinct_map)
    have u: "\<exists>!c. c \<in> set catalog \<and> ID c = original_id (snd (?df ! k))"
    proof (rule ex1I [of _ c])
      from c show "c \<in> set catalog \<and> ID c = original_id (snd (?df ! k))" by simp
    next
      fix c'
      assume "c' \<in> set catalog \<and> ID c' = original_id (snd (?df ! k))"
      with c inj_onD [OF inj, of c' c] show "c' = c" by simp
    qed
    from k have f: "map_of (formatted_rows out ! k) ''file_name''
        = Some (StrV (file_name (snd (?df ! k))))"
      by (simp add: fr split_beta)
    from k have j: "benchmark_json out ! k
        = benchmark_json_entry (has_transcript segments) (snd (?df ! k))"
      by (simp add: js split_beta)
    from u br(4) br(3) f j show ?thesis by blast
  qed
  from 1 2 3 show ?thesis
    unfolding Let_def by blast
qed

theorem output_rows_resolved_witness:
  "\<exists>out g. main example_seed example_interval 0 example_catalog example_segments = Inr (out, g)
     \<and> map (\<lambda>(i, b). (i, original_id b, age_group b, bm_duration_category b, bm_content_type b,
                        strata b)) (benchmark_df out)
       = [(0, ''STT_GR_0001'', ''Adult'', ''medium'', ''Q&A'', Some ''Adult__medium__Q&A''),
          (1, ''STT_GR_0001'', ''Adult'', ''medium'', ''Q&A'', Some ''Adult__medium__Q&A''),
          (2, ''STT_GR_0001'', ''Adult'', ''medium'', ''Q&A'', Some ''Adult__medium__Q&A''),
          (5, ''STT_GR_0002'', ''Senior'', ''short'', ''Prayer'', Some ''Senior__short__Prayer'')]
     \<and> (\<exists>!c. c \<in> set example_catalog \<and> ID c = original_id (snd (benchmark_df out ! 3)))
     \<and> length (formatted_rows out) = 4
     \<and> length (benchmark_json out) = 4
     \<and> benchmark_json out ! 3 = benchmark_json_entry True (snd (benchmark_df out ! 3))"
proof -
  from example_main show ?thesis
  proof (elim exE conjE)
    fix out g
    assume m: "main example_seed example_interval 0 example_catalog example_segments
        = Inr (out, g)"
      and b: "map (\<lambda>(i, b). (i, original_id b, age_group b, bm_duration_category b,
                              bm_content_type b, strata b)) (benchmark_df out)
       = [(0, ''STT_GR_0001'', ''Adult'', ''medium'', ''Q&A'', Some ''Adult__medium__Q&A''),
          (1, ''STT_GR_0001'', ''Adult'', ''medium'', ''Q&A'', Some ''Adult__medium__Q&A''),
          (2, ''STT_GR_0001'', ''Adult'', ''medium'', ''Q&A'', Some ''Adult__medium__Q&A''),
          (5, ''STT_GR_0002'', ''Senior'', ''short'', ''Prayer'', Some ''Senior__short__Prayer'')]"
    from b have "length (map (\<lambda>(i, b). (i, original_id b, age_group b, bm_duration_category b,
                              bm_content_type b, strata b)) (benchmark_df out)) = 4"
      by simp
    then have len: "length (benchmark_df out) = 4"
      by simp
    note t = output_rows_resolved [OF example_interval_ok m, unfolded Let_def]
    from t len have 1: "length (formatted_rows out) = 4" "length (benchmark_json out) = 4"
      by simp_all
    from len have "3 < length (benchmark_df out)" by simp
    with t have 3: "\<exists>!c. c \<in> set example_catalog \<and> ID c = original_id (snd (benchmark_df out ! 3))"
      "benchmark_json out ! 3
         = benchmark_json_entry (has_transcript example_segments) (snd (benchmark_df out ! 3))"
      by blast+
    have h: "has_transcript example_segments = True"
      by (simp add: example_segments_def)
    from 3(2) have j: "benchmark_json out ! 3 = benchmark_json_entry True (snd (benchmark_df out ! 3))"
      unfolding h .
    from m b 3(1) 1 j show ?thesis
      by (intro exI conjI)
  qed
qed

end
